theory Spec2Isabelle
  imports Main "HOL-Library.Sublist" "HOL-Library.List_Lexorder" "HOL-Library.Code_Target_Nat"
begin

section \<open>Strings\<close>

text \<open>
  A JavaScript string is a sequence of UTF-16 code units. A code unit is modelled as a
  natural number (the values below 65536 occur), a string as the list of its code units.
  \<open>u\<close> writes an ASCII literal as such a string.
\<close>

type_synonym ustring = "nat list"

definition cu :: "char \<Rightarrow> nat" where
  [simp]: "cu c = of_char c"

definition u :: "string \<Rightarrow> ustring" where
  [simp]: "u s = map of_char s"

text \<open>
  \<open>String.prototype.toLowerCase\<close> and \<open>toUpperCase\<close> are functions of the platform,
  defined by the Unicode case conversion tables, and not part of the program: they are
  parameters of the model, the two fields of a \<open>platform\<close>.
\<close>

record platform =
  toLowerCase :: "ustring \<Rightarrow> ustring"
  toUpperCase :: "ustring \<Rightarrow> ustring"

text \<open>\<open>s.trim()\<close> removes white space and line terminators at both ends: TAB, LF, VT, FF,
  CR, SPACE, NO-BREAK SPACE, the other space separators of Unicode (U+1680,
  U+2000 to U+200A, U+202F, U+205F, U+3000), LINE SEPARATOR, PARAGRAPH SEPARATOR and
  U+FEFF.\<close>

definition is_space :: "nat \<Rightarrow> bool" where
  "is_space c =
     (c \<in> {0x09, 0x0A, 0x0B, 0x0C, 0x0D, 0x20, 0xA0, 0x1680, 0x2028, 0x2029, 0x202F, 0x205F,
             0x3000, 0xFEFF}
      \<or> (0x2000 \<le> c \<and> c \<le> 0x200A))"

definition trim :: "ustring \<Rightarrow> ustring" where
  "trim s = rev (dropWhile is_space (rev (dropWhile is_space s)))"

text \<open>\<open>s.split(sep)\<close> for a separator of one code unit: the empty string splits into one
  empty segment, and two separators in a row enclose an empty segment.\<close>

fun split_on :: "nat \<Rightarrow> ustring \<Rightarrow> ustring list" where
  "split_on sep [] = [[]]"
| "split_on sep (c # cs) =
     (if c = sep then [] # split_on sep cs
      else (case split_on sep cs of [] \<Rightarrow> [[c]] | p # ps \<Rightarrow> (c # p) # ps))"

text \<open>\<open>t.includes(q)\<close>: some suffix of \<open>t\<close> starts with \<open>q\<close>.\<close>

fun str_includes :: "ustring \<Rightarrow> ustring \<Rightarrow> bool" where
  "str_includes [] q = (q = [])"
| "str_includes (c # cs) q = (prefix q (c # cs) \<or> str_includes cs q)"

text \<open>\<open>xs.join(sep)\<close> on strings\<close>

fun join :: "ustring \<Rightarrow> ustring list \<Rightarrow> ustring" where
  "join sep [] = []"
| "join sep [x] = x"
| "join sep (x # y # ys) = x @ sep @ join sep (y # ys)"

section \<open>Regular expressions of the source\<close>

text \<open>With the flag \<open>i\<close>, \<open>x\<close> matches the code units of \<open>x\<close> and \<open>X\<close>, and \<open>[0-9a-f]\<close> those
  of the digits and of the letters a to f in both cases; no code unit outside ASCII
  matches them.\<close>

definition is_hex :: "nat \<Rightarrow> bool" where
  "is_hex c = ((48 \<le> c \<and> c \<le> 57) \<or> (65 \<le> c \<and> c \<le> 70) \<or> (97 \<le> c \<and> c \<le> 102))"

text \<open>\<open>/^0x/i\<close>\<close>

fun starts_0x :: "ustring \<Rightarrow> bool" where
  "starts_0x (c0 # c1 # cs) = (c0 = cu CHR ''0'' \<and> (c1 = cu CHR ''x'' \<or> c1 = cu CHR ''X''))"
| "starts_0x cs = False"

text \<open>\<open>/^_?0x/i\<close>: the test of \<open>rawToPascal\<close>, \<open>parseDeepLink\<close> and \<open>setDeepLink\<close>.\<close>

fun hash_prefix :: "ustring \<Rightarrow> bool" where
  "hash_prefix (c # cs) = (if c = cu CHR ''_'' then starts_0x cs else starts_0x (c # cs))"
| "hash_prefix [] = False"

text \<open>\<open>s.replace(/^_/, "")\<close>\<close>

fun strip_underscore :: "ustring \<Rightarrow> ustring" where
  "strip_underscore (c # cs) = (if c = cu CHR ''_'' then cs else c # cs)"
| "strip_underscore [] = []"

text \<open>\<open>/^0x[0-9a-f]+$/i\<close>: the group captured by \<open>parseHashFragment\<close>.\<close>

fun hash_token :: "ustring \<Rightarrow> bool" where
  "hash_token (c0 # c1 # ds) =
     (c0 = cu CHR ''0'' \<and> (c1 = cu CHR ''x'' \<or> c1 = cu CHR ''X'') \<and> ds \<noteq> []
      \<and> list_all is_hex ds)"
| "hash_token cs = False"

section \<open>JavaScript values\<close>

text \<open>
  The datasets are parsed JSON documents, so every value the code reads is one of these.
  Of a number the code observes two things only, whether it is zero and its rendering as
  text: \<open>JNum s\<close> is the number that \<open>String\<close> renders as \<open>s\<close>, and zero is the number
  rendered as \<open>0\<close>. \<open>JObj kvs\<close> lists the own properties of an object in enumeration order,
  each key once. A property that is absent reads as \<open>undefined\<close>, modelled by \<open>None\<close>. The
  only exception the code can raise on such values is a \<open>TypeError\<close> (calling a method
  that the value does not have, reading a property of \<open>null\<close>, or converting to a string
  an object whose own \<open>toString\<close> property hides the inherited method).
\<close>

datatype json =
    JNull
  | JBool bool
  | JNum ustring
  | JStr ustring
  | JArr "json list"
  | JObj "(ustring \<times> json) list"

datatype error = TypeError

fun truthy :: "json \<Rightarrow> bool" where
  "truthy JNull = False"
| "truthy (JBool b) = b"
| "truthy (JNum s) = (s \<noteq> u ''0'')"
| "truthy (JStr s) = (s \<noteq> [])"
| "truthy (JArr xs) = True"
| "truthy (JObj kvs) = True"

text \<open>\<open>v.k\<close> on a value that is not \<open>null\<close>: only objects have the property names the
  code reads.\<close>

fun get_prop :: "json \<Rightarrow> ustring \<Rightarrow> json option" where
  "get_prop (JObj kvs) k = map_of kvs k"
| "get_prop v k = None"

text \<open>\<open>a || d\<close>\<close>

fun or_else :: "json option \<Rightarrow> json \<Rightarrow> json" where
  "or_else None d = d"
| "or_else (Some v) d = (if truthy v then v else d)"

text \<open>Sequencing of computations that may raise.\<close>

fun bind_err :: "error + 'a \<Rightarrow> ('a \<Rightarrow> error + 'b) \<Rightarrow> error + 'b" where
  "bind_err (Inl e) f = Inl e"
| "bind_err (Inr x) f = f x"

fun map_err :: "('a \<Rightarrow> error + 'b) \<Rightarrow> 'a list \<Rightarrow> error + 'b list" where
  "map_err f [] = Inr []"
| "map_err f (x # xs) = bind_err (f x) (\<lambda>y. bind_err (map_err f xs) (\<lambda>ys. Inr (y # ys)))"

text \<open>\<open>String(v)\<close>, as a template literal, a regular expression test and \<open>join\<close> apply
  it. An array is rendered by \<open>join(",")\<close>, where \<open>null\<close> gives the empty string. An
  object is rendered by the inherited \<open>toString\<close> as \<open>[object Object]\<close>; an own property
  \<open>toString\<close> of a parsed object is never a function, and the conversion raises.\<close>

fun to_string :: "json \<Rightarrow> error + ustring"
  and elem_strings :: "json list \<Rightarrow> error + ustring list" where
  "to_string JNull = Inr (u ''null'')"
| "to_string (JBool b) = Inr (if b then u ''true'' else u ''false'')"
| "to_string (JNum s) = Inr s"
| "to_string (JStr s) = Inr s"
| "to_string (JArr xs) = bind_err (elem_strings xs) (\<lambda>ts. Inr (join (u '','') ts))"
| "to_string (JObj kvs) =
     (if u ''toString'' \<in> fst ` set kvs then Inl TypeError else Inr (u ''[object Object]''))"
| "elem_strings [] = Inr []"
| "elem_strings (x # xs) =
     bind_err (if x = JNull then Inr [] else to_string x)
       (\<lambda>t. bind_err (elem_strings xs) (\<lambda>ts. Inr (t # ts)))"

text \<open>\<open>[...].join(sep)\<close> on an array of values.\<close>

definition join_values :: "ustring \<Rightarrow> json list \<Rightarrow> error + ustring" where
  "join_values sep vs = bind_err (elem_strings vs) (\<lambda>ts. Inr (join sep ts))"

text \<open>The decimal numeral of an array index.\<close>

fun show_nat :: "nat \<Rightarrow> ustring" where
  "show_nat n =
     (if n < 10 then [48 + n]
      else show_nat (n div 10) @ [48 + n mod 10])"

declare show_nat.simps [simp del]

section \<open>Normalizer\<close>

text \<open>\<open>p[0]?.toUpperCase() + p.slice(1)\<close>: \<open>p[0]\<close> is the first code unit of \<open>p\<close>, as a string
  of length one; on the empty string it is \<open>undefined\<close>.\<close>

fun capitalize :: "platform \<Rightarrow> ustring \<Rightarrow> ustring" where
  "capitalize P [] = u ''undefined''"
| "capitalize P (c # cs) = toUpperCase P [c] @ cs"

text \<open>
  A string is reformatted; any other truthy value that does not pass the test has no
  \<open>replace\<close> method, and the call raises. The test converts its argument to a string.
  \<^verbatim>\<open>
  function rawToPascal(raw) {
      if (!raw) return "";
      if (/^_?0x/i.test(raw)) return raw; // hash-style name, keep
      raw = raw.replace(/^_/, "");
      return raw
          .toLowerCase()
          .split("_")
          .filter(Boolean)
          .map((p) => p[0]?.toUpperCase() + p.slice(1))
          .join("");
  }
  \<close>
\<close>

definition rawToPascal :: "platform \<Rightarrow> json \<Rightarrow> error + json" where
  "rawToPascal P raw =
     (if \<not> truthy raw then Inr (JStr [])
      else bind_err (to_string raw) (\<lambda>text.
        if hash_prefix text then Inr raw
        else (case raw of
                JStr s \<Rightarrow>
                  Inr (JStr (join [] (map (capitalize P)
                    (filter (\<lambda>p. p \<noteq> [])
                      (split_on (cu CHR ''_'') (toLowerCase P (strip_underscore s)))))))
              | _ \<Rightarrow> Inl TypeError)))"

text \<open>
  \<^verbatim>\<open>
  function normalizeApiSet(n) {
      // apiset appears on many entries. If missing, assume 'client' (most GTA natives are client-side).
      return (n.apiset || "client").toLowerCase();
  }
  \<close>
  Reading a property of \<open>null\<close> raises, and so does \<open>toLowerCase\<close> on a truthy value
  that is not a string.
\<close>

definition normalizeApiSet :: "platform \<Rightarrow> json \<Rightarrow> error + ustring" where
  "normalizeApiSet P n =
     (if n = JNull then Inl TypeError
      else (case or_else (get_prop n (u ''apiset'')) (JStr (u ''client'')) of
              JStr s \<Rightarrow> Inr (toLowerCase P s)
            | _ \<Rightarrow> Inl TypeError))"

text \<open>\<open>m.set(k, v)\<close> on a \<open>Map\<close>, kept as the list of its entries in insertion order.\<close>

fun map_set :: "ustring \<Rightarrow> json \<Rightarrow> (ustring \<times> json) list \<Rightarrow> (ustring \<times> json) list" where
  "map_set k v [] = [(k, v)]"
| "map_set k v (p # ps) = (if fst p = k then (k, v) # ps else p # map_set k v ps)"

text \<open>
  \<^verbatim>\<open>
  function toExamplesMap(examples) {
      // natives.json uses: [{ lang: "lua"|"js"|"cs", code: "..." }, ...]
      const m = new Map();
      if (!Array.isArray(examples)) return m;
      for (const ex of examples) {
          if (!ex) continue;
          if (typeof ex === "string") continue;
          const lang = (ex.lang || "").toLowerCase();
          if (!lang) continue;
          m.set(lang, ex.code || "");
      }
      return m;
  }
  \<close>
\<close>

fun is_string :: "json \<Rightarrow> bool" where
  "is_string (JStr s) = True"
| "is_string v = False"

fun examples_loop ::
  "platform \<Rightarrow> json list \<Rightarrow> (ustring \<times> json) list \<Rightarrow> error + (ustring \<times> json) list" where
  "examples_loop P [] m = Inr m"
| "examples_loop P (ex # exs) m =
     (if \<not> truthy ex then examples_loop P exs m
      else if is_string ex then examples_loop P exs m
      else (case or_else (get_prop ex (u ''lang'')) (JStr []) of
              JStr l \<Rightarrow>
                (if toLowerCase P l = [] then examples_loop P exs m
                 else examples_loop P exs
                        (map_set (toLowerCase P l) (or_else (get_prop ex (u ''code'')) (JStr [])) m))
            | _ \<Rightarrow> Inl TypeError))"

fun toExamplesMap :: "platform \<Rightarrow> json option \<Rightarrow> error + (ustring \<times> json) list" where
  "toExamplesMap P (Some (JArr exs)) = examples_loop P exs []"
| "toExamplesMap P v = Inr []"

text \<open>\<open>Object.entries(v)\<close> and the spread \<open>{...v}\<close>: the own enumerable properties. An
  array and a string have one property per index; a number and a boolean have none.
  Every call in the source is guarded by \<open>|| {}\<close>, so \<open>null\<close> never reaches it.\<close>

definition indexed :: "'a list \<Rightarrow> (ustring \<times> 'a) list" where
  "indexed xs = zip (map show_nat [0..<length xs]) xs"

fun own_entries :: "json \<Rightarrow> (ustring \<times> json) list" where
  "own_entries (JObj kvs) = kvs"
| "own_entries (JArr xs) = indexed xs"
| "own_entries (JStr s) = indexed (map (\<lambda>c. JStr [c]) s)"
| "own_entries v = []"

text \<open>
  \<^verbatim>\<open>(n.params || []).map((p) => `${p.name || ""} ${p.type || ""} ${p.description || ""}`).join(" ")\<close>
  A truthy \<open>params\<close> that is not an array has no \<open>map\<close> method, and reading \<open>p.name\<close> of
  a \<open>null\<close> element raises.
\<close>

definition param_text :: "json \<Rightarrow> error + ustring" where
  "param_text p =
     (if p = JNull then Inl TypeError
      else bind_err (to_string (or_else (get_prop p (u ''name'')) (JStr []))) (\<lambda>a.
           bind_err (to_string (or_else (get_prop p (u ''type'')) (JStr []))) (\<lambda>b.
           bind_err (to_string (or_else (get_prop p (u ''description'')) (JStr []))) (\<lambda>c.
             Inr (a @ u '' '' @ b @ u '' '' @ c)))))"

definition params_text :: "json \<Rightarrow> error + ustring" where
  "params_text n =
     (case or_else (get_prop n (u ''params'')) (JArr []) of
        JArr ps \<Rightarrow> bind_err (map_err param_text ps) (\<lambda>ts. Inr (join (u '' '') ts))
      | _ \<Rightarrow> Inl TypeError)"

text \<open>A normalized entry: the fields that \<open>flatten\<close> computes, and in \<open>props\<close> the
  properties that the spread \<open>...n\<close> copies from the payload and that no computed field
  replaces (\<open>params\<close>, \<open>results\<close>, \<open>description\<close> and so on).\<close>

record entry =
  props :: "(ustring \<times> json) list"
  ns :: json
  hash :: json
  name :: json
  apiset :: ustring
  luaName :: json
  exMap :: "(ustring \<times> json) list"
  searchText :: ustring

definition computed_fields :: "ustring list" where
  "computed_fields =
     [u ''ns'', u ''hash'', u ''name'', u ''apiset'', u ''luaName'', u ''exMap'', u ''searchText'']"

text \<open>
  The body of the inner loop of \<open>flatten\<close>, for the namespace key \<open>nsKey\<close>, the entry
  key \<open>hashKey\<close> and the payload \<open>n0\<close>:
  \<^verbatim>\<open>
  const n = n0 || {};
  const hash = n.hash || hashKey;
  const name = n.name || "";
  const apiset = normalizeApiSet(n);
  const luaName = rawToPascal(name);
  const exMap = toExamplesMap(n.examples);
  const searchText = [
      name, luaName, hash, ns,
      n.description || "",
      (n.params || []).map((p) => `${p.name || ""} ${p.type || ""} ${p.description || ""}`).join(" "),
      n.results || "", n.resultsDescription || ""
  ].join("\n").toLowerCase();

  out.push({
      ...n,
      ns: n.ns || ns,
      hash,
      name,
      apiset,
      luaName,
      exMap,
      searchText,
  });
  \<close>
\<close>

definition flatten_entry :: "platform \<Rightarrow> ustring \<Rightarrow> ustring \<Rightarrow> json \<Rightarrow> error + entry" where
  "flatten_entry P nsKey hashKey n0 =
     (let n = or_else (Some n0) (JObj []);
          hash' = or_else (get_prop n (u ''hash'')) (JStr hashKey);
          name' = or_else (get_prop n (u ''name'')) (JStr [])
      in bind_err (normalizeApiSet P n) (\<lambda>apiset'.
         bind_err (rawToPascal P name') (\<lambda>luaName'.
         bind_err (toExamplesMap P (get_prop n (u ''examples''))) (\<lambda>exMap'.
         bind_err (params_text n) (\<lambda>ptext.
         bind_err (join_values [0x0A]
                     [name', luaName', hash', JStr nsKey,
                      or_else (get_prop n (u ''description'')) (JStr []),
                      JStr ptext,
                      or_else (get_prop n (u ''results'')) (JStr []),
                      or_else (get_prop n (u ''resultsDescription'')) (JStr [])]) (\<lambda>joined.
           Inr \<lparr> props = filter (\<lambda>kv. fst kv \<notin> set computed_fields) (own_entries n),
                 ns = or_else (get_prop n (u ''ns'')) (JStr nsKey),
                 hash = hash',
                 name = name',
                 apiset = apiset',
                 luaName = luaName',
                 exMap = exMap',
                 searchText = toLowerCase P joined \<rparr>))))))"

text \<open>
  \<^verbatim>\<open>
  function flatten(db) {
      const out = [];
      for (const [ns, entries] of Object.entries(db || {})) {
          for (const [hashKey, n0] of Object.entries(entries || {})) {
              (the body above)
          }
      }
      return out;
  }
  \<close>
\<close>

definition flatten_ns :: "platform \<Rightarrow> ustring \<Rightarrow> json \<Rightarrow> error + entry list" where
  "flatten_ns P nsKey entries =
     map_err (\<lambda>kv. flatten_entry P nsKey (fst kv) (snd kv))
       (own_entries (or_else (Some entries) (JObj [])))"

definition flatten :: "platform \<Rightarrow> json \<Rightarrow> error + entry list" where
  "flatten P db =
     bind_err (map_err (\<lambda>kv. flatten_ns P (fst kv) (snd kv))
                 (own_entries (or_else (Some db) (JObj []))))
       (\<lambda>groups. Inr (concat groups))"

section \<open>Query Engine\<close>

text \<open>
  The filter of \<open>renderList\<close>; \<open>qv\<close>, \<open>apiSel\<close> and \<open>nsSel\<close> are the values of the three
  controls \<open>elQ\<close>, \<open>elApi\<close> and \<open>elNs\<close>.
  \<^verbatim>\<open>
  const q = (elQ.value || "").trim().toLowerCase();

  const filtered = items.filter((n) => {
      if (elApi.value !== "all" && n.apiset !== elApi.value) return false;
      if (elNs.value !== "all" && n.ns !== elNs.value) return false;
      if (q && !n.searchText.includes(q)) return false;
      return true;
  });
  \<close>
\<close>

definition keep :: "ustring \<Rightarrow> ustring \<Rightarrow> ustring \<Rightarrow> entry \<Rightarrow> bool" where
  "keep q apiSel nsSel n =
     (if apiSel \<noteq> u ''all'' \<and> apiset n \<noteq> apiSel then False
      else if nsSel \<noteq> u ''all'' \<and> ns n \<noteq> JStr nsSel then False
      else if q \<noteq> [] \<and> \<not> str_includes (searchText n) q then False
      else True)"

definition filtered ::
  "platform \<Rightarrow> ustring \<Rightarrow> ustring \<Rightarrow> ustring \<Rightarrow> entry list \<Rightarrow> entry list" where
  "filtered P qv apiSel nsSel items =
     filter (keep (toLowerCase P (trim qv)) apiSel nsSel) items"

text \<open>
  \<^verbatim>\<open>
  function unique(arr) {
      return [...new Set(arr)];
  }
  \<close>
  A \<open>Set\<close> keeps the first occurrence of each value, in insertion order.
\<close>

fun unique_into :: "'a list \<Rightarrow> 'a list \<Rightarrow> 'a list" where
  "unique_into seen [] = seen"
| "unique_into seen (x # xs) = unique_into (if x \<in> set seen then seen else seen @ [x]) xs"

definition unique :: "'a list \<Rightarrow> 'a list" where
  "unique arr = unique_into [] arr"

text \<open>\<open>arr.sort((a, b) => a.localeCompare(b))\<close>. The collation \<open>localeCompare\<close> belongs to
  the platform and is a parameter \<open>lc\<close> here (negative, zero or positive). \<open>sort\<close> is stable;
  the insertion sort below stands for it.\<close>

fun insert_by :: "('a \<Rightarrow> 'a \<Rightarrow> int) \<Rightarrow> 'a \<Rightarrow> 'a list \<Rightarrow> 'a list" where
  "insert_by lc x [] = [x]"
| "insert_by lc x (y # ys) = (if lc x y \<le> 0 then x # y # ys else y # insert_by lc x ys)"

fun sort_by :: "('a \<Rightarrow> 'a \<Rightarrow> int) \<Rightarrow> 'a list \<Rightarrow> 'a list" where
  "sort_by lc [] = []"
| "sort_by lc (x # xs) = insert_by lc x (sort_by lc xs)"

text \<open>
  \<^verbatim>\<open>
  const namespaces = unique(items.map(n => n.ns).filter(Boolean)).sort((a, b) => a.localeCompare(b));
  \<close>
  Only strings have \<open>localeCompare\<close>. When some entry has a namespace value that is truthy
  and not a string, whether the comparison raises depends on the order in which the
  engine's sort calls it; the model gives no result (\<open>None\<close>) there.
\<close>

fun str_of :: "json \<Rightarrow> ustring" where
  "str_of (JStr s) = s"
| "str_of v = []"

definition namespaces :: "(ustring \<Rightarrow> ustring \<Rightarrow> int) \<Rightarrow> entry list \<Rightarrow> ustring list option" where
  "namespaces lc items =
     (let vs = filter truthy (map ns items)
      in if list_all is_string vs then Some (sort_by lc (unique (map str_of vs))) else None)"

section \<open>Deep-Link Codec\<close>

text \<open>The address of the page, as far as the codec reads and writes it: \<open>location.hash\<close>
  (empty, or the fragment with its leading \<open>#\<close>) and the decoded query parameters of
  \<open>new URL(location.href).searchParams\<close>, in order. Writing the address with
  \<open>history.replaceState\<close> and parsing it again is taken to give back the same
  parameters.\<close>

record address =
  location_hash :: ustring
  searchParams :: "(ustring \<times> ustring) list"

text \<open>
  \<^verbatim>\<open>
  function parseHashFragment() {
      const raw = (location.hash || "").trim();
      const m = raw.match(/^#_?(0x[0-9a-f]+)$/i);
      return m ? m[1] : null;
  }
  \<close>
\<close>

fun match_fragment :: "ustring \<Rightarrow> ustring option" where
  "match_fragment [] = None"
| "match_fragment (c # r) =
     (if c \<noteq> cu CHR ''#'' then None
      else (case r of
              [] \<Rightarrow> None
            | d # t \<Rightarrow>
                if d = cu CHR ''_'' then (if hash_token t then Some t else None)
                else (if hash_token (d # t) then Some (d # t) else None)))"

definition parseHashFragment :: "address \<Rightarrow> ustring option" where
  "parseHashFragment a = match_fragment (trim (location_hash a))"

text \<open>
  \<^verbatim>\<open>
  function parseDeepLink() {
      const fromHash = parseHashFragment();
      if (fromHash) return fromHash;
      const url = new URL(location.href);
      for (const [k] of url.searchParams.entries()) {
          if (/^_?0x/i.test(k)) return k.replace(/^_/, "");
      }
      const h = url.searchParams.get("hash");
      if (h && /^0x/i.test(h)) return h;
      return null;
  }
  \<close>
\<close>

fun first_hash_key :: "(ustring \<times> ustring) list \<Rightarrow> ustring option" where
  "first_hash_key [] = None"
| "first_hash_key (kv # kvs) =
     (if hash_prefix (fst kv) then Some (strip_underscore (fst kv)) else first_hash_key kvs)"

text \<open>\<open>searchParams.get(name)\<close>: the value of the first parameter of that name.\<close>

fun sp_get :: "ustring \<Rightarrow> (ustring \<times> ustring) list \<Rightarrow> ustring option" where
  "sp_get k [] = None"
| "sp_get k (kv # kvs) = (if fst kv = k then Some (snd kv) else sp_get k kvs)"

definition from_hash_param :: "(ustring \<times> ustring) list \<Rightarrow> ustring option" where
  "from_hash_param kvs =
     (case sp_get (u ''hash'') kvs of
        None \<Rightarrow> None
      | Some h \<Rightarrow> if h \<noteq> [] \<and> starts_0x h then Some h else None)"

definition parseDeepLink :: "address \<Rightarrow> ustring option" where
  "parseDeepLink a =
     (let from_query =
            (case first_hash_key (searchParams a) of
               Some k \<Rightarrow> Some k
             | None \<Rightarrow> from_hash_param (searchParams a))
      in case parseHashFragment a of
           Some t \<Rightarrow> if t \<noteq> [] then Some t else from_query
         | None \<Rightarrow> from_query)"

text \<open>\<open>searchParams.delete(name)\<close> removes every parameter of that name;
  \<open>searchParams.set(name, value)\<close> overwrites the first one and removes the others, or
  appends when there is none.\<close>

definition sp_delete :: "ustring \<Rightarrow> (ustring \<times> ustring) list \<Rightarrow> (ustring \<times> ustring) list" where
  "sp_delete k kvs = filter (\<lambda>kv. fst kv \<noteq> k) kvs"

fun sp_set :: "ustring \<Rightarrow> ustring \<Rightarrow> (ustring \<times> ustring) list \<Rightarrow> (ustring \<times> ustring) list" where
  "sp_set k v [] = [(k, v)]"
| "sp_set k v (kv # kvs) =
     (if fst kv = k then (k, v) # sp_delete k kvs else kv # sp_set k v kvs)"

text \<open>
  \<^verbatim>\<open>
  function setDeepLink(hash) {
      const url = new URL(location.href);
      for (const k of [...url.searchParams.keys()]) {
          if (/^_?0x/i.test(k) || k === "hash") url.searchParams.delete(k);
      }
      url.searchParams.set(`_${hash}`, "");
      history.replaceState(null, "", url.toString());
  }
  \<close>
  The fragment of the address is not written.
\<close>

fun clear_loop :: "ustring list \<Rightarrow> (ustring \<times> ustring) list \<Rightarrow> (ustring \<times> ustring) list" where
  "clear_loop [] kvs = kvs"
| "clear_loop (k # ks) kvs =
     clear_loop ks (if hash_prefix k \<or> k = u ''hash'' then sp_delete k kvs else kvs)"

definition setDeepLink :: "ustring \<Rightarrow> address \<Rightarrow> address" where
  "setDeepLink key a =
     a\<lparr>searchParams :=
         sp_set (cu CHR ''_'' # key) [] (clear_loop (map fst (searchParams a)) (searchParams a))\<rparr>"

section \<open>The platform's case conversion\<close>

text \<open>
  What the statements below use of \<open>toLowerCase\<close> and \<open>toUpperCase\<close>, each a property of
  the Unicode case conversion that ECMAScript prescribes.

  On ASCII text the conversion changes the letters A to Z, or a to z, and nothing else.
\<close>

definition is_ascii :: "nat \<Rightarrow> bool" where
  "is_ascii c = (c < 128)"

definition lower_ascii :: "nat \<Rightarrow> nat" where
  "lower_ascii c = (if 65 \<le> c \<and> c \<le> 90 then c + 32 else c)"

definition upper_ascii :: "nat \<Rightarrow> nat" where
  "upper_ascii c = (if 97 \<le> c \<and> c \<le> 122 then c - 32 else c)"

definition ascii_case :: "platform \<Rightarrow> bool" where
  "ascii_case P =
     (\<forall>s. list_all is_ascii s \<longrightarrow>
        toLowerCase P s = map lower_ascii s \<and> toUpperCase P s = map upper_ascii s)"

text \<open>Only the empty string is lower-cased to the empty string.\<close>

definition lower_nonempty :: "platform \<Rightarrow> bool" where
  "lower_nonempty P = (\<forall>s. toLowerCase P s = [] \<longrightarrow> s = [])"


text \<open>The case conversion of ASCII alone, a platform to run the model on ASCII text.\<close>

definition ascii_platform :: platform where
  "ascii_platform = \<lparr> toLowerCase = map lower_ascii, toUpperCase = map upper_ascii \<rparr>"

section \<open>The statements of the specification\<close>

subsection \<open>The display-name rule as the specification words it\<close>

text \<open>The hash-style pattern: an optional leading underscore, then \<open>0x\<close> followed by hex
  digits, case-insensitive. As the code's test, it is read as a pattern for the start of
  the identifier; at least one hex digit has to follow \<open>0x\<close>.\<close>

fun hex_name :: "ustring \<Rightarrow> bool" where
  "hex_name (c0 # c1 # d # cs) =
     (c0 = cu CHR ''0'' \<and> (c1 = cu CHR ''x'' \<or> c1 = cu CHR ''X'') \<and> is_hex d)"
| "hex_name cs = False"

definition hash_style :: "ustring \<Rightarrow> bool" where
  "hash_style s =
     (hex_name s \<or> (case s of [] \<Rightarrow> False | c # t \<Rightarrow> c = cu CHR ''_'' \<and> hex_name t))"

text \<open>Strip a single leading underscore if present, lower-case the remainder, split on
  underscore, drop empty segments, upper-case the first character (code unit) of each
  segment, and concatenate with no separator.\<close>

definition displayName_spec :: "platform \<Rightarrow> ustring \<Rightarrow> ustring" where
  "displayName_spec P raw =
     concat (map (\<lambda>seg. toUpperCase P [hd seg] @ tl seg)
       (filter (\<lambda>seg. seg \<noteq> [])
         (split_on (cu CHR ''_'')
           (toLowerCase P
             (case raw of [] \<Rightarrow> [] | c # r \<Rightarrow> if c = cu CHR ''_'' then r else c # r)))))"

subsection \<open>The Query Engine's predicates as the specification words them\<close>

text \<open>\<open>t\<close> is \<open>s\<close> trimmed: \<open>s\<close> without the white space at its two ends.\<close>

definition trimmed_form :: "ustring \<Rightarrow> ustring \<Rightarrow> bool" where
  "trimmed_form s t =
     (\<exists>a b. s = a @ t @ b \<and> list_all is_space a \<and> list_all is_space b
            \<and> (t = [] \<or> (\<not> is_space (hd t) \<and> \<not> is_space (last t))))"

text \<open>The API set equals the selector, or the selector is \<open>all\<close>; the namespace equals the
  selector, or the selector is \<open>all\<close>; the trimmed, lower-cased query appears as a substring
  in the entry's search text.\<close>

definition matches_spec :: "platform \<Rightarrow> ustring \<Rightarrow> ustring \<Rightarrow> ustring \<Rightarrow> entry \<Rightarrow> bool" where
  "matches_spec P qv apiSel nsSel n =
     ((apiSel = u ''all'' \<or> apiset n = apiSel)
      \<and> (nsSel = u ''all'' \<or> ns n = JStr nsSel)
      \<and> (\<exists>t. trimmed_form qv t \<and> sublist (toLowerCase P t) (searchText n)))"


subsection \<open>The fragment form as the specification words it\<close>

text \<open>An address fragment of the form \<open>#\<close>, an optional \<open>_\<close>, then a hash-style token
  (\<open>0x\<close> and hex digits): \<open>fragment_form f t\<close> says that the fragment \<open>f\<close> has this form
  with the token \<open>t\<close>.\<close>

definition fragment_form :: "ustring \<Rightarrow> ustring \<Rightarrow> bool" where
  "fragment_form f t =
     (hash_token t \<and> (f = cu CHR ''#'' # t \<or> f = cu CHR ''#'' # cu CHR ''_'' # t))"

subsection \<open>Comparison functions and digits\<close>

text \<open>A consistent comparison function, as \<open>Array.prototype.sort\<close> requires of its
  argument: any two values are comparable, and the order it induces is transitive.\<close>

definition consistent :: "('a \<Rightarrow> 'a \<Rightarrow> int) \<Rightarrow> bool" where
  "consistent lc =
     ((\<forall>a b. lc a b \<le> 0 \<or> lc b a \<le> 0)
      \<and> (\<forall>a b c. lc a b \<le> 0 \<longrightarrow> lc b c \<le> 0 \<longrightarrow> lc a c \<le> 0))"

text \<open>Comparison of strings by code units, a collation to run the model with.\<close>

definition code_unit_compare :: "ustring \<Rightarrow> ustring \<Rightarrow> int" where
  "code_unit_compare a b = (if a = b then 0 else if a < b then - 1 else 1)"

text \<open>The decimal digits, of which \<open>show_nat\<close> builds the index property names.\<close>

definition is_digit :: "nat \<Rightarrow> bool" where
  "is_digit c = (48 \<le> c \<and> c \<le> 57)"

section \<open>The ASCII platform\<close>

lemma ascii_case_ascii_platform: "ascii_case ascii_platform"
  by (simp add: ascii_case_def ascii_platform_def)

lemma lower_nonempty_ascii_platform: "lower_nonempty ascii_platform"
  by (simp add: lower_nonempty_def ascii_platform_def)



lemma ascii_lower: "ascii_case P \<Longrightarrow> list_all is_ascii s \<Longrightarrow> toLowerCase P s = map lower_ascii s"
  by (simp add: ascii_case_def)

lemma ascii_upper: "ascii_case P \<Longrightarrow> list_all is_ascii s \<Longrightarrow> toUpperCase P s = map upper_ascii s"
  by (simp add: ascii_case_def)

section \<open>Properties of the display-name rule\<close>

lemma hex_name_starts: "hex_name s \<Longrightarrow> starts_0x s"
  by (cases s rule: hex_name.cases) auto

lemma starts_0x_head: "starts_0x (c # cs) \<Longrightarrow> c = cu CHR ''0''"
  by (cases cs) auto

lemma hash_style_prefix:
  assumes "hash_style s"
  shows "hash_prefix s"
proof (cases s)
  case Nil
  with assms show ?thesis by (simp add: hash_style_def)
next
  case (Cons c t)
  show ?thesis
  proof (cases "c = cu CHR ''_''")
    case True
    have "\<not> hex_name s"
    proof
      assume "hex_name s"
      then have "starts_0x s" by (rule hex_name_starts)
      with Cons have "c = cu CHR ''0''" by (auto dest: starts_0x_head)
      with True show False by simp
    qed
    with Cons assms have "hex_name t" by (simp add: hash_style_def)
    then have "starts_0x t" by (rule hex_name_starts)
    with Cons True show ?thesis by simp
  next
    case False
    with Cons assms show ?thesis
      by (auto simp: hash_style_def dest: hex_name_starts)
  qed
qed

lemma join_empty_sep: "join [] xs = concat xs"
proof (induction xs)
  case Nil
  show ?case by simp
next
  case (Cons x xs)
  then show ?case by (cases xs) simp_all
qed

lemma capitalize_nonempty: "p \<noteq> [] \<Longrightarrow> capitalize P p = toUpperCase P [hd p] @ tl p"
  by (cases p) simp_all

lemma map_capitalize_filter:
  "map (capitalize P) (filter (\<lambda>p. p \<noteq> []) xs) =
   map (\<lambda>seg. toUpperCase P [hd seg] @ tl seg) (filter (\<lambda>p. p \<noteq> []) xs)"
  by (rule map_cong) (auto simp: capitalize_nonempty)

lemma strip_underscore_case:
  "strip_underscore raw =
     (case raw of [] \<Rightarrow> [] | c # r \<Rightarrow> if c = cu CHR ''_'' then r else c # r)"
  by (cases raw) simp_all

lemma rawToPascal_hash_prefix:
  "hash_prefix raw \<Longrightarrow> rawToPascal P (JStr raw) = Inr (JStr raw)"
  by (cases raw) (simp_all add: rawToPascal_def)

text \<open>The split used by the rule is a real split: joining the segments with the separator
  gives the string back, and no segment contains the separator.\<close>

lemma split_on_nonempty: "split_on sep s \<noteq> []"
  by (induction s) (auto split: list.splits)

lemma join_split_on: "join [sep] (split_on sep s) = s"
proof (induction s)
  case Nil
  show ?case by simp
next
  case (Cons c cs)
  obtain p ps where ps: "split_on sep cs = p # ps"
    using split_on_nonempty[of sep cs] by (cases "split_on sep cs") auto
  with Cons show ?case by (cases ps) auto
qed

lemma split_on_segments: "p \<in> set (split_on sep s) \<Longrightarrow> sep \<notin> set p"
  by (induction s arbitrary: p) (auto split: list.splits if_splits)

text \<open>
  Claim C9. For every raw identifier that matches the hash-style pattern (an optional
  leading underscore, then \<open>0x\<close> followed by hex digits, in either letter case), the
  display-name transform returns the identifier as it is, leading underscore and letter
  case included.
\<close>

theorem rawToPascal_hash_style_identity:
  "hash_style raw \<Longrightarrow> rawToPascal P (JStr raw) = Inr (JStr raw)"
  by (rule rawToPascal_hash_prefix) (rule hash_style_prefix)

theorem rawToPascal_hash_style_identity_witness:
  "hash_style (u ''_0xAbCd12'')
   \<and> rawToPascal ascii_platform (JStr (u ''_0xAbCd12'')) = Inr (JStr (u ''_0xAbCd12''))"
proof -
  have h: "hash_style (u ''_0xAbCd12'')"
    by (simp add: hash_style_def is_hex_def)
  from h rawToPascal_hash_style_identity[OF h, of ascii_platform] show ?thesis by blast
qed

text \<open>On every platform the rule as the specification words it makes \<open>0xFoo\<close> of
  \<open>0x_foo\<close>.\<close>

lemma displayName_spec_0x_foo:
  assumes "ascii_case P"
  shows "displayName_spec P (u ''0x_foo'') = u ''0xFoo''"
  by (simp add: displayName_spec_def ascii_lower[OF assms] ascii_upper[OF assms] is_ascii_def
        lower_ascii_def upper_ascii_def)

text \<open>
  Claim C2, as stated, fails: \<open>0x_foo\<close> does not match the hash-style pattern (no hex digit
  follows \<open>0x\<close>), so the claim has it transformed to \<open>0xFoo\<close>, but the code keeps every
  identifier that begins with an optional underscore and \<open>0x\<close>. (The identifier is ASCII;
  the model is run with the case conversion of ASCII.)
\<close>

theorem rawToPascal_0x_foo_kept:
  "\<not> hash_style (u ''0x_foo'') \<and> displayName_spec ascii_platform (u ''0x_foo'') = u ''0xFoo''
   \<and> rawToPascal ascii_platform (JStr (u ''0x_foo'')) = Inr (JStr (u ''0x_foo''))"
  by code_simp

text \<open>
  Claim C2, amended. For every raw identifier that does not begin with an optional
  underscore followed by \<open>0x\<close> (in either letter case; hex digits are not looked at), the
  display-name transform equals: strip a single leading underscore if present, lower-case
  the remainder, split on underscore, drop empty segments, upper-case the first character
  of each segment, and concatenate with no separator. In particular \<open>_get_player_ped\<close> and
  \<open>_get_PLAYER_ped\<close> both map to \<open>GetPlayerPed\<close>. (The platform's case conversion
  is the one of ASCII on ASCII text, as every ECMAScript platform's is.)
\<close>

theorem rawToPascal_display_name:
  assumes a: "ascii_case P"
  shows "(\<not> hash_prefix raw \<longrightarrow> rawToPascal P (JStr raw) = Inr (JStr (displayName_spec P raw)))
   \<and> rawToPascal P (JStr (u ''_get_player_ped'')) = Inr (JStr (u ''GetPlayerPed''))
   \<and> rawToPascal P (JStr (u ''_get_PLAYER_ped'')) = Inr (JStr (u ''GetPlayerPed''))"
proof (intro conjI impI)
  assume np: "\<not> hash_prefix raw"
  show "rawToPascal P (JStr raw) = Inr (JStr (displayName_spec P raw))"
  proof (cases raw)
    case Nil
    then show ?thesis
      by (simp add: rawToPascal_def displayName_spec_def ascii_lower[OF a])
  next
    case (Cons c r)
    with np show ?thesis
      unfolding rawToPascal_def displayName_spec_def
      by (simp add: join_empty_sep map_capitalize_filter flip: strip_underscore_case)
  qed
next
  show "rawToPascal P (JStr (u ''_get_player_ped'')) = Inr (JStr (u ''GetPlayerPed''))"
    by (simp add: rawToPascal_def ascii_lower[OF a] ascii_upper[OF a] is_ascii_def
          lower_ascii_def upper_ascii_def)
next
  show "rawToPascal P (JStr (u ''_get_PLAYER_ped'')) = Inr (JStr (u ''GetPlayerPed''))"
    by (simp add: rawToPascal_def ascii_lower[OF a] ascii_upper[OF a] is_ascii_def
          lower_ascii_def upper_ascii_def)
qed

theorem rawToPascal_display_name_witness:
  "\<not> hash_prefix (u ''_set__Player_ped_'')
   \<and> rawToPascal ascii_platform (JStr (u ''_set__Player_ped_''))
       = Inr (JStr (displayName_spec ascii_platform (u ''_set__Player_ped_'')))
   \<and> displayName_spec ascii_platform (u ''_set__Player_ped_'') = u ''SetPlayerPed''
   \<and> ascii_case ascii_platform
   \<and> rawToPascal ascii_platform (JStr (u ''_get_PLAYER_ped'')) = Inr (JStr (u ''GetPlayerPed''))"
proof -
  note T = rawToPascal_display_name[OF ascii_case_ascii_platform, of "u ''_set__Player_ped_''"]
  have h: "\<not> hash_prefix (u ''_set__Player_ped_'')" by simp
  have d: "displayName_spec ascii_platform (u ''_set__Player_ped_'') = u ''SetPlayerPed''"
    by code_simp
  from T h
  have 1: "rawToPascal ascii_platform (JStr (u ''_set__Player_ped_''))
       = Inr (JStr (displayName_spec ascii_platform (u ''_set__Player_ped_'')))"
    by blast
  from T
  have 2: "rawToPascal ascii_platform (JStr (u ''_get_PLAYER_ped'')) = Inr (JStr (u ''GetPlayerPed''))"
    by blast
  from h 1 d 2 ascii_case_ascii_platform show ?thesis by blast
qed

section \<open>Properties of the Normalizer\<close>

lemma or_else_truthy_default: "truthy d \<Longrightarrow> truthy (or_else v d)"
  by (cases v) auto

lemma normalizeApiSet_nonempty:
  assumes l: "lower_nonempty P" and h: "normalizeApiSet P n = Inr a"
  shows "a \<noteq> []"
proof -
  have t: "truthy (or_else (get_prop n (u ''apiset'')) (JStr (u ''client'')))"
    by (rule or_else_truthy_default) simp
  show ?thesis
  proof (cases "or_else (get_prop n (u ''apiset'')) (JStr (u ''client''))")
    case (JStr s)
    with t have "s \<noteq> []" by simp
    with l have "toLowerCase P s \<noteq> []" unfolding lower_nonempty_def by blast
    with h JStr show ?thesis
      by (auto simp: normalizeApiSet_def split: if_splits)
  qed (use h in \<open>auto simp: normalizeApiSet_def split: if_splits\<close>)
qed

lemma bind_err_Inr: "bind_err m f = Inr y \<longleftrightarrow> (\<exists>x. m = Inr x \<and> f x = Inr y)"
  by (cases m) auto

lemma map_err_Inr_set:
  "map_err f xs = Inr ys \<Longrightarrow> y \<in> set ys \<Longrightarrow> \<exists>x \<in> set xs. f x = Inr y"
  by (induction xs arbitrary: ys) (auto simp: bind_err_Inr)

lemma flatten_entry_normalizeApiSet:
  "flatten_entry P nsKey hashKey n0 = Inr e \<Longrightarrow>
     normalizeApiSet P (or_else (Some n0) (JObj [])) = Inr (apiset e)"
  by (auto simp: flatten_entry_def Let_def bind_err_Inr)

lemma flatten_entry_apiset:
  "lower_nonempty P \<Longrightarrow> flatten_entry P nsKey hashKey n0 = Inr e \<Longrightarrow> apiset e \<noteq> []"
  by (drule flatten_entry_normalizeApiSet) (rule normalizeApiSet_nonempty)

lemma flatten_ns_apiset:
  "lower_nonempty P \<Longrightarrow> flatten_ns P nsKey v = Inr es \<Longrightarrow> e \<in> set es \<Longrightarrow> apiset e \<noteq> []"
  unfolding flatten_ns_def by (drule (1) map_err_Inr_set) (auto dest: flatten_entry_apiset)

lemma flatten_apiset:
  assumes "lower_nonempty P" and "flatten P db = Inr es" and "e \<in> set es"
  shows "apiset e \<noteq> []"
proof -
  from assms(2) obtain groups where
    g: "map_err (\<lambda>kv. flatten_ns P (fst kv) (snd kv))
          (own_entries (or_else (Some db) (JObj []))) = Inr groups"
    and es: "es = concat groups"
    unfolding flatten_def by (auto simp: bind_err_Inr)
  from assms(3) es obtain grp where grp: "grp \<in> set groups" "e \<in> set grp" by auto
  from map_err_Inr_set[OF g grp(1)] obtain kv where "flatten_ns P (fst kv) (snd kv) = Inr grp"
    by auto
  from flatten_ns_apiset[OF assms(1) this grp(2)] show ?thesis .
qed

text \<open>
  Claim C5. For every payload entry (\<open>flatten\<close> puts an empty object in the place of
  \<open>null\<close>), the normalized API set is the payload's \<open>apiset\<close> field lower-cased when the
  field is present and a non-empty string, and \<open>client\<close> when the field is absent or the
  empty string; it is the \<open>apiset\<close> of the normalized entry. Whenever normalization
  returns, and so in every entry of every flattened collection, the API set is not the
  empty string. (Lower-casing is the platform's: it is the one of ASCII on ASCII text and
  gives the empty string for the empty string only.)
\<close>

theorem normalizeApiSet_lowercase_or_client:
  assumes a: "ascii_case P" and l: "lower_nonempty P"
  shows "(get_prop n (u ''apiset'') = Some (JStr s) \<and> s \<noteq> []
            \<longrightarrow> normalizeApiSet P n = Inr (toLowerCase P s))
   \<and> (n \<noteq> JNull \<and> (get_prop n (u ''apiset'') = None \<or> get_prop n (u ''apiset'') = Some (JStr []))
        \<longrightarrow> normalizeApiSet P n = Inr (u ''client''))
   \<and> (normalizeApiSet P n = Inr r \<longrightarrow> r \<noteq> [])
   \<and> (flatten_entry P nsKey hashKey n0 = Inr e0
        \<longrightarrow> normalizeApiSet P (or_else (Some n0) (JObj [])) = Inr (apiset e0))
   \<and> (flatten P db = Inr es \<longrightarrow> (\<forall>e \<in> set es. apiset e \<noteq> []))"
proof (intro conjI impI ballI)
  assume "get_prop n (u ''apiset'') = Some (JStr s) \<and> s \<noteq> []"
  then show "normalizeApiSet P n = Inr (toLowerCase P s)"
    by (cases n) (simp_all add: normalizeApiSet_def)
next
  have c: "toLowerCase P (u ''client'') = u ''client''"
    by (simp add: ascii_lower[OF a] is_ascii_def lower_ascii_def)
  assume "n \<noteq> JNull \<and> (get_prop n (u ''apiset'') = None \<or> get_prop n (u ''apiset'') = Some (JStr []))"
  with c[simplified] show "normalizeApiSet P n = Inr (u ''client'')"
    by (auto simp: normalizeApiSet_def)
next
  assume "normalizeApiSet P n = Inr r"
  with l show "r \<noteq> []" by (rule normalizeApiSet_nonempty)
next
  assume "flatten_entry P nsKey hashKey n0 = Inr e0"
  then show "normalizeApiSet P (or_else (Some n0) (JObj [])) = Inr (apiset e0)"
    by (rule flatten_entry_normalizeApiSet)
next
  fix e assume "flatten P db = Inr es" "e \<in> set es"
  with l show "apiset e \<noteq> []" by (rule flatten_apiset)
qed

theorem normalizeApiSet_lowercase_or_client_witness:
  "normalizeApiSet ascii_platform (JObj [(u ''apiset'', JStr (u ''SerVer''))]) = Inr (u ''server'')
   \<and> normalizeApiSet ascii_platform (JObj [(u ''name'', JStr (u ''x''))]) = Inr (u ''client'')
   \<and> normalizeApiSet ascii_platform (JObj [(u ''apiset'', JStr [])]) = Inr (u ''client'')
   \<and> flatten ascii_platform
        (JObj [(u ''CFX'', JObj [(u ''abc'', JObj [(u ''apiset'', JStr (u ''SerVer''))])])]) =
       Inr [\<lparr> props = [], ns = JStr (u ''CFX''), hash = JStr (u ''abc''), name = JStr [],
              apiset = u ''server'', luaName = JStr [], exMap = [],
              searchText = [0x0A, 0x0A] @ u ''abc'' @ [0x0A] @ u ''cfx''
                             @ [0x0A, 0x0A, 0x0A, 0x0A] \<rparr>]
   \<and> u ''server'' \<noteq> []"
proof -
  let ?P = ascii_platform
  let ?n = "JObj [(u ''apiset'', JStr (u ''SerVer''))]"
  let ?n1 = "JObj [(u ''name'', JStr (u ''x''))]"
  let ?n2 = "JObj [(u ''apiset'', JStr [])]"
  let ?db = "JObj [(u ''CFX'', JObj [(u ''abc'', ?n)])]"
  let ?e = "\<lparr> props = [], ns = JStr (u ''CFX''), hash = JStr (u ''abc''), name = JStr [],
              apiset = u ''server'', luaName = JStr [], exMap = [],
              searchText = [0x0A, 0x0A] @ u ''abc'' @ [0x0A] @ u ''cfx''
                             @ [0x0A, 0x0A, 0x0A, 0x0A] \<rparr>"
  note T = normalizeApiSet_lowercase_or_client
             [OF ascii_case_ascii_platform lower_nonempty_ascii_platform]
  note T0 = T[of ?n "u ''SerVer''" "u ''server''" "u ''CFX''" "u ''abc''" ?n ?e ?db "[?e]"]
  have g: "get_prop ?n (u ''apiset'') = Some (JStr (u ''SerVer'')) \<and> u ''SerVer'' \<noteq> []" by simp
  have lw: "toLowerCase ?P (u ''SerVer'') = u ''server''" by code_simp
  have fe: "flatten_entry ?P (u ''CFX'') (u ''abc'') ?n = Inr ?e" by code_simp
  have f: "flatten ?P ?db = Inr [?e]" by code_simp
  from T0 g have "normalizeApiSet ?P ?n = Inr (toLowerCase ?P (u ''SerVer''))" by blast
  with lw have n: "normalizeApiSet ?P ?n = Inr (u ''server'')" by simp
  from T0 n have ne: "u ''server'' \<noteq> []" by blast
  from T0 fe have "normalizeApiSet ?P (or_else (Some ?n) (JObj [])) = Inr (apiset ?e)" by blast
  from T0 f have "\<forall>e \<in> set [?e]. apiset e \<noteq> []" by blast
  have "?n1 \<noteq> JNull
        \<and> (get_prop ?n1 (u ''apiset'') = None \<or> get_prop ?n1 (u ''apiset'') = Some (JStr []))"
    by simp
  with T[of ?n1] have c1: "normalizeApiSet ?P ?n1 = Inr (u ''client'')" by blast
  have "?n2 \<noteq> JNull
        \<and> (get_prop ?n2 (u ''apiset'') = None \<or> get_prop ?n2 (u ''apiset'') = Some (JStr []))"
    by simp
  with T[of ?n2] have c2: "normalizeApiSet ?P ?n2 = Inr (u ''client'')" by blast
  from n c1 c2 f ne show ?thesis by blast
qed

lemma show_nat_digits: "c \<in> set (show_nat n) \<Longrightarrow> is_digit c"
proof (induction n rule: show_nat.induct)
  case (1 n)
  show ?case
  proof (cases "n < 10")
    case True
    with "1.prems" show ?thesis
      by (subst (asm) show_nat.simps) (simp add: is_digit_def)
  next
    case False
    with "1.prems" have "c \<in> set (show_nat (n div 10)) \<or> c = 48 + n mod 10"
      by (subst (asm) show_nat.simps) auto
    then show ?thesis
    proof
      assume "c \<in> set (show_nat (n div 10))"
      with "1.IH" False show ?thesis by simp
    next
      assume "c = 48 + n mod 10"
      then show ?thesis by (simp add: is_digit_def)
    qed
  qed
qed

lemma show_nat_not_computed: "show_nat n \<notin> set computed_fields"
proof
  assume "show_nat n \<in> set computed_fields"
  then have "\<exists>c \<in> set (show_nat n). \<not> is_digit c"
    by (auto simp: computed_fields_def is_digit_def)
  with show_nat_digits show False by blast
qed

lemma indexed_keys:
  assumes "kv \<in> set (indexed xs)"
  shows "\<exists>i. fst kv = show_nat i"
proof -
  from assms have "(fst kv, snd kv) \<in> set (zip (map show_nat [0..<length xs]) xs)"
    by (simp add: indexed_def)
  then have "fst kv \<in> set (map show_nat [0..<length xs])" by (rule set_zip_leftD)
  then show ?thesis by auto
qed

lemma filter_indexed: "filter (\<lambda>kv. fst kv \<notin> set computed_fields) (indexed xs) = indexed xs"
  by (rule filter_True) (auto dest!: indexed_keys simp: show_nat_not_computed)

lemma indexed_Nil: "indexed [] = []"
  by (simp add: indexed_def)

lemma flatten_entry_non_object:
  assumes "ascii_case P" and "\<forall>kvs. n0 \<noteq> JObj kvs"
  shows "flatten_entry P nsKey hashKey n0 =
     Inr \<lparr> props = own_entries n0,
           ns = JStr nsKey, hash = JStr hashKey, name = JStr [], apiset = u ''client'',
           luaName = JStr [], exMap = [],
           searchText = toLowerCase P (join [0x0A] [[], [], hashKey, nsKey, [], [], [], []]) \<rparr>"
proof -
  have c: "toLowerCase P (u ''client'') = u ''client''"
    by (simp add: ascii_lower[OF assms(1)] is_ascii_def lower_ascii_def)
  from assms(2) show ?thesis
    by (cases n0)
       (simp_all add: flatten_entry_def normalizeApiSet_def rawToPascal_def params_text_def
          join_values_def filter_indexed Let_def indexed_Nil c[simplified])
qed

lemma flatten_entry_empty_object:
  assumes "ascii_case P"
  shows "flatten_entry P nsKey hashKey (JObj []) =
     Inr \<lparr> props = [],
           ns = JStr nsKey, hash = JStr hashKey, name = JStr [], apiset = u ''client'',
           luaName = JStr [], exMap = [],
           searchText = toLowerCase P (join [0x0A] [[], [], hashKey, nsKey, [], [], [], []]) \<rparr>"
proof -
  have c: "toLowerCase P (u ''client'') = u ''client''"
    by (simp add: ascii_lower[OF assms] is_ascii_def lower_ascii_def)
  show ?thesis
    by (simp add: flatten_entry_def normalizeApiSet_def rawToPascal_def params_text_def
          join_values_def Let_def c[simplified])
qed

text \<open>Flattening the dataset \<open>"a"\<close> gives the same on every platform.\<close>

lemma flatten_string_dataset_any_platform:
  assumes "ascii_case P"
  shows "flatten P (JStr (u ''a'')) = flatten ascii_platform (JStr (u ''a''))"
proof -
  have n: "\<forall>kvs. JStr (u ''a'') \<noteq> JObj kvs" by simp
  have i: "indexed [JStr (u ''a'')] = [(u ''0'', JStr (u ''a''))]"
    by (simp add: indexed_def show_nat.simps[of 0])
  have l: "toLowerCase P [0x0A, 0x0A, 48, 0x0A, 48, 0x0A, 0x0A, 0x0A, 0x0A]
           = toLowerCase ascii_platform [0x0A, 0x0A, 48, 0x0A, 48, 0x0A, 0x0A, 0x0A, 0x0A]"
    by (simp add: ascii_lower[OF assms] ascii_lower[OF ascii_case_ascii_platform] is_ascii_def)
  show ?thesis
    using l
    by (simp add: flatten_def flatten_ns_def i[simplified]
          flatten_entry_non_object[OF assms n, simplified]
          flatten_entry_non_object[OF ascii_case_ascii_platform n, simplified])
qed

text \<open>
  Claim C8, as stated, fails: a RawDataset that is a non-empty string is not a nested
  mapping, but the code enumerates it by index, one entry per character, and the
  flattened collection is not empty. (The dataset is ASCII; the model is run with the case
  conversion of ASCII.)
\<close>

theorem flatten_string_dataset_not_empty:
  "flatten ascii_platform (JStr (u ''a'')) =
     Inr [\<lparr> props = [(u ''0'', JStr (u ''a''))], ns = JStr (u ''0''), hash = JStr (u ''0''),
            name = JStr [], apiset = u ''client'', luaName = JStr [], exMap = [],
            searchText = [0x0A, 0x0A] @ u ''0'' @ [0x0A] @ u ''0''
                           @ [0x0A, 0x0A, 0x0A, 0x0A] \<rparr>]"
  by code_simp

text \<open>
  Claim C8, amended. For every namespace key and entry key, a payload entry that is not
  an object (null, a boolean, a number, a string or an array) is normalized without
  error, and the result is that of the empty object, every computed field at its default,
  with the index-named own properties of a string or array payload passed through. A
  RawDataset, and the entry collection of a namespace, that is null, a boolean, a number
  or the empty string flattens to the empty collection without error.
\<close>

theorem flatten_defaults_malformed:
  assumes a: "ascii_case P"
  shows "flatten_entry P nsKey hashKey (JObj []) =
     Inr \<lparr> props = [],
           ns = JStr nsKey, hash = JStr hashKey, name = JStr [], apiset = u ''client'',
           luaName = JStr [], exMap = [],
           searchText = toLowerCase P (join [0x0A] [[], [], hashKey, nsKey, [], [], [], []]) \<rparr>
   \<and> ((\<forall>kvs. n0 \<noteq> JObj kvs) \<longrightarrow>
        flatten_entry P nsKey hashKey n0 =
          map_sum id (\<lambda>e. e\<lparr>props := own_entries n0\<rparr>) (flatten_entry P nsKey hashKey (JObj [])))
   \<and> flatten P JNull = Inr [] \<and> flatten P (JBool b) = Inr []
   \<and> flatten P (JNum k) = Inr [] \<and> flatten P (JStr []) = Inr []
   \<and> flatten_ns P nsKey JNull = Inr [] \<and> flatten_ns P nsKey (JBool b) = Inr []
   \<and> flatten_ns P nsKey (JNum k) = Inr [] \<and> flatten_ns P nsKey (JStr []) = Inr []"
proof (intro conjI impI)
  show "flatten_entry P nsKey hashKey (JObj []) =
     Inr \<lparr> props = [],
           ns = JStr nsKey, hash = JStr hashKey, name = JStr [], apiset = u ''client'',
           luaName = JStr [], exMap = [],
           searchText = toLowerCase P (join [0x0A] [[], [], hashKey, nsKey, [], [], [], []]) \<rparr>"
    by (rule flatten_entry_empty_object[OF a])
next
  assume "\<forall>kvs. n0 \<noteq> JObj kvs"
  then show "flatten_entry P nsKey hashKey n0 =
          map_sum id (\<lambda>e. e\<lparr>props := own_entries n0\<rparr>) (flatten_entry P nsKey hashKey (JObj []))"
    by (simp add: flatten_entry_non_object[OF a] flatten_entry_empty_object[OF a])
qed (simp_all add: flatten_def flatten_ns_def indexed_Nil)

theorem flatten_defaults_malformed_witness:
  "flatten_entry ascii_platform (u ''NS'') (u ''0xK'') (JNum (u ''5''))
     = flatten_entry ascii_platform (u ''NS'') (u ''0xK'') (JObj [])
   \<and> flatten_entry ascii_platform (u ''NS'') (u ''0xK'') (JNum (u ''5'')) =
       Inr \<lparr> props = [], ns = JStr (u ''NS''), hash = JStr (u ''0xK''), name = JStr [],
             apiset = u ''client'', luaName = JStr [], exMap = [],
             searchText = [0x0A, 0x0A] @ u ''0xk'' @ [0x0A] @ u ''ns''
                            @ [0x0A, 0x0A, 0x0A, 0x0A] \<rparr>
   \<and> flatten ascii_platform (JNum (u ''5'')) = Inr []"
proof -
  let ?P = ascii_platform
  note T = flatten_defaults_malformed
             [OF ascii_case_ascii_platform, of "u ''NS''" "u ''0xK''" "JNum (u ''5'')" True "u ''5''"]
  have e: "flatten_entry ?P (u ''NS'') (u ''0xK'') (JObj []) =
       Inr \<lparr> props = [], ns = JStr (u ''NS''), hash = JStr (u ''0xK''), name = JStr [],
             apiset = u ''client'', luaName = JStr [], exMap = [],
             searchText = [0x0A, 0x0A] @ u ''0xk'' @ [0x0A] @ u ''ns''
                            @ [0x0A, 0x0A, 0x0A, 0x0A] \<rparr>"
    by code_simp
  have "\<forall>kvs. JNum (u ''5'') \<noteq> JObj kvs" by simp
  with T have "flatten_entry ?P (u ''NS'') (u ''0xK'') (JNum (u ''5'')) =
      map_sum id (\<lambda>e. e\<lparr>props := own_entries (JNum (u ''5''))\<rparr>)
        (flatten_entry ?P (u ''NS'') (u ''0xK'') (JObj []))"
    by blast
  with e have 1: "flatten_entry ?P (u ''NS'') (u ''0xK'') (JNum (u ''5''))
                  = flatten_entry ?P (u ''NS'') (u ''0xK'') (JObj [])"
    by simp
  from T have "flatten ?P (JNum (u ''5'')) = Inr []" by blast
  with 1 e show ?thesis by simp
qed

section \<open>Properties of the Query Engine\<close>

lemma is_space_code_units:
  "is_space c \<longleftrightarrow>
     c \<in> set [0x09, 0x0A, 0x0B, 0x0C, 0x0D, 0x20, 0xA0, 0x1680, 0x2000, 0x2001, 0x2002, 0x2003,
               0x2004, 0x2005, 0x2006, 0x2007, 0x2008, 0x2009, 0x200A, 0x2028, 0x2029, 0x202F,
               0x205F, 0x3000, 0xFEFF]"
proof
  assume "is_space c"
  then consider "c \<in> {0x09, 0x0A, 0x0B, 0x0C, 0x0D, 0x20, 0xA0, 0x1680, 0x2028, 0x2029, 0x202F,
                       0x205F, 0x3000, 0xFEFF}"
    | "0x2000 \<le> c \<and> c \<le> 0x200A"
    unfolding is_space_def by blast
  then show "c \<in> set [0x09, 0x0A, 0x0B, 0x0C, 0x0D, 0x20, 0xA0, 0x1680, 0x2000, 0x2001, 0x2002,
               0x2003, 0x2004, 0x2005, 0x2006, 0x2007, 0x2008, 0x2009, 0x200A, 0x2028, 0x2029,
               0x202F, 0x205F, 0x3000, 0xFEFF]"
  proof cases
    case 1
    then show ?thesis by auto
  next
    case 2
    then have "c = 0x2000 \<or> c = 0x2001 \<or> c = 0x2002 \<or> c = 0x2003 \<or> c = 0x2004 \<or> c = 0x2005
               \<or> c = 0x2006 \<or> c = 0x2007 \<or> c = 0x2008 \<or> c = 0x2009 \<or> c = 0x200A"
      by arith
    then show ?thesis by auto
  qed
next
  assume "c \<in> set [0x09, 0x0A, 0x0B, 0x0C, 0x0D, 0x20, 0xA0, 0x1680, 0x2000, 0x2001, 0x2002,
               0x2003, 0x2004, 0x2005, 0x2006, 0x2007, 0x2008, 0x2009, 0x200A, 0x2028, 0x2029,
               0x202F, 0x205F, 0x3000, 0xFEFF]"
  then show "is_space c" by (auto simp: is_space_def)
qed

lemma str_includes_sublist: "str_includes t q \<longleftrightarrow> sublist q t"
  by (induction t) (simp_all add: sublist_Cons_right)

lemma dropWhile_all: "list_all P xs \<Longrightarrow> dropWhile P xs = []"
  by (induction xs) auto

lemma dropWhile_all_append: "list_all P xs \<Longrightarrow> dropWhile P (xs @ ys) = dropWhile P ys"
  by (induction xs) auto

lemma list_all_takeWhile: "list_all P (takeWhile P xs)"
  by (induction xs) auto

text \<open>\<open>trim\<close> computes the trimmed form, and a string has one trimmed form only.\<close>

lemma trimmed_form_trim: "trimmed_form s (trim s)"
proof -
  let ?a = "takeWhile is_space s"
  let ?r = "dropWhile is_space s"
  let ?b = "rev (takeWhile is_space (rev ?r))"
  let ?t = "rev (dropWhile is_space (rev ?r))"
  have t: "trim s = ?t" by (simp add: trim_def)
  have "?t @ ?b = rev (takeWhile is_space (rev ?r) @ dropWhile is_space (rev ?r))"
    by (simp only: rev_append)
  also have "\<dots> = rev (rev ?r)" by (simp only: takeWhile_dropWhile_id)
  finally have r: "?r = ?t @ ?b" by simp
  have s: "s = ?a @ ?t @ ?b"
  proof -
    have "s = ?a @ ?r" by simp
    with r show ?thesis by simp
  qed
  have a: "list_all is_space ?a"
    by (rule list_all_takeWhile)
  have "list_all is_space (takeWhile is_space (rev ?r))"
    by (rule list_all_takeWhile)
  then have b: "list_all is_space ?b"
    by (simp add: list_all_iff)
  have e: "?t = [] \<or> (\<not> is_space (hd ?t) \<and> \<not> is_space (last ?t))"
  proof (cases "?t = []")
    case True
    then show ?thesis by simp
  next
    case False
    then have d: "dropWhile is_space (rev ?r) \<noteq> []" by simp
    then have "\<not> is_space (hd (dropWhile is_space (rev ?r)))" by (rule hd_dropWhile)
    with d have l: "\<not> is_space (last ?t)" by (simp add: last_rev)
    have "?r \<noteq> []"
    proof
      assume "?r = []"
      then have "?t = []" by (simp only: rev.simps dropWhile.simps)
      with False show False by simp
    qed
    then have "\<not> is_space (hd ?r)" by (rule hd_dropWhile)
    moreover from r False have "hd ?r = hd ?t" by (metis hd_append2)
    ultimately have "\<not> is_space (hd ?t)" by simp
    with l show ?thesis by simp
  qed
  from s a b e show ?thesis unfolding trimmed_form_def t by blast
qed

lemma trimmed_form_unique:
  assumes "trimmed_form s t"
  shows "t = trim s"
proof -
  from assms obtain a b where s: "s = a @ t @ b"
    and a: "list_all is_space a" and b: "list_all is_space b"
    and e: "t = [] \<or> (\<not> is_space (hd t) \<and> \<not> is_space (last t))"
    unfolding trimmed_form_def by blast
  show ?thesis
  proof (cases "t = []")
    case True
    with s a b have "list_all is_space s" by simp
    then have "dropWhile is_space s = []" by (rule dropWhile_all)
    then have "trim s = []" by (simp only: trim_def rev.simps dropWhile.simps)
    with True show ?thesis by simp
  next
    case False
    with e have h: "\<not> is_space (hd t)" and l: "\<not> is_space (last t)" by simp_all
    from a have "dropWhile is_space (a @ t @ b) = dropWhile is_space (t @ b)"
      by (rule dropWhile_all_append)
    also from False h have "\<dots> = t @ b" by (cases t) simp_all
    finally have 1: "dropWhile is_space s = t @ b" using s by simp
    from b have "list_all is_space (rev b)" by (simp add: list_all_iff)
    then have "dropWhile is_space (rev b @ rev t) = dropWhile is_space (rev t)"
      by (rule dropWhile_all_append)
    also from False l have "\<dots> = rev t" by (cases "rev t") (simp_all add: last_rev flip: hd_rev)
    finally have "dropWhile is_space (rev (t @ b)) = rev t" by simp
    with 1 show ?thesis by (simp add: trim_def)
  qed
qed

lemma trimmed_form_iff: "trimmed_form s t \<longleftrightarrow> t = trim s"
  using trimmed_form_trim trimmed_form_unique by blast

lemma matches_spec_trim:
  "matches_spec P qv apiSel nsSel n =
     ((apiSel = u ''all'' \<or> apiset n = apiSel)
      \<and> (nsSel = u ''all'' \<or> ns n = JStr nsSel)
      \<and> sublist (toLowerCase P (trim qv)) (searchText n))"
  unfolding matches_spec_def trimmed_form_iff by blast

lemma keep_matches:
  "keep (toLowerCase P (trim qv)) apiSel nsSel n = matches_spec P qv apiSel nsSel n"
  unfolding matches_spec_trim by (auto simp: keep_def str_includes_sublist)

lemma trim_blank: "list_all is_space qv \<Longrightarrow> trim qv = []"
  by (simp add: trim_def dropWhile_all)

text \<open>
  Claim C1. For every collection and every triple of criteria (free-text query, API-set
  selector, namespace selector), the filter of the list view returns exactly the entries
  that satisfy the three predicates together, in their original order: the API set equals
  the selector or the selector is \<open>all\<close>, the namespace equals the selector or the selector
  is \<open>all\<close>, and the trimmed, lower-cased query is a substring of the search text. The
  result is a subsequence of the collection, and an empty query (nothing but white space)
  leaves only the two selectors to decide.
\<close>

theorem filtered_is_filter_of_all_three:
  "filtered P qv apiSel nsSel items = filter (matches_spec P qv apiSel nsSel) items
   \<and> subseq (filtered P qv apiSel nsSel items) items
   \<and> (ascii_case P \<and> list_all is_space qv \<longrightarrow>
        filtered P qv apiSel nsSel items =
          filter (\<lambda>n. (apiSel = u ''all'' \<or> apiset n = apiSel)
                     \<and> (nsSel = u ''all'' \<or> ns n = JStr nsSel)) items)"
proof (intro conjI impI)
  have k: "keep (toLowerCase P (trim qv)) apiSel nsSel = matches_spec P qv apiSel nsSel"
    by (rule ext) (rule keep_matches)
  show f: "filtered P qv apiSel nsSel items = filter (matches_spec P qv apiSel nsSel) items"
    by (simp add: filtered_def k)
  show "subseq (filtered P qv apiSel nsSel items) items"
    by (simp add: filtered_def)
  assume e: "ascii_case P \<and> list_all is_space qv"
  then have "toLowerCase P (trim qv) = []"
    by (simp add: trim_blank ascii_lower)
  then have "matches_spec P qv apiSel nsSel =
      (\<lambda>n. (apiSel = u ''all'' \<or> apiset n = apiSel) \<and> (nsSel = u ''all'' \<or> ns n = JStr nsSel))"
    unfolding matches_spec_trim by simp
  with f show "filtered P qv apiSel nsSel items =
          filter (\<lambda>n. (apiSel = u ''all'' \<or> apiset n = apiSel)
                     \<and> (nsSel = u ''all'' \<or> ns n = JStr nsSel)) items"
    by simp
qed

theorem filtered_is_filter_of_all_three_witness:
  "trim ([0xA0, 0x20] @ u ''PeD'' @ [0xFEFF, 0x09]) = u ''PeD''
   \<and> filtered ascii_platform ([0xA0, 0x20] @ u ''PeD'' @ [0xFEFF, 0x09]) (u ''all'') (u ''all'')
        [\<lparr> props = [], ns = JStr (u ''PED''), hash = JStr (u ''0x1''), name = JStr (u ''get_ped''),
            apiset = u ''client'', luaName = JStr (u ''GetPed''), exMap = [],
            searchText = u ''get_ped getped 0x1 ped'' \<rparr>,
         \<lparr> props = [], ns = JStr (u ''CFX''), hash = JStr (u ''0x2''), name = JStr (u ''drop''),
            apiset = u ''server'', luaName = JStr (u ''Drop''), exMap = [],
            searchText = u ''drop 0x2 cfx'' \<rparr>]
     = [\<lparr> props = [], ns = JStr (u ''PED''), hash = JStr (u ''0x1''), name = JStr (u ''get_ped''),
           apiset = u ''client'', luaName = JStr (u ''GetPed''), exMap = [],
           searchText = u ''get_ped getped 0x1 ped'' \<rparr>]
   \<and> filtered ascii_platform (u ''  '') (u ''server'') (u ''all'')
        [\<lparr> props = [], ns = JStr (u ''PED''), hash = JStr (u ''0x1''), name = JStr (u ''get_ped''),
            apiset = u ''client'', luaName = JStr (u ''GetPed''), exMap = [],
            searchText = u ''get_ped getped 0x1 ped'' \<rparr>,
         \<lparr> props = [], ns = JStr (u ''CFX''), hash = JStr (u ''0x2''), name = JStr (u ''drop''),
            apiset = u ''server'', luaName = JStr (u ''Drop''), exMap = [],
            searchText = u ''drop 0x2 cfx'' \<rparr>]
     = [\<lparr> props = [], ns = JStr (u ''CFX''), hash = JStr (u ''0x2''), name = JStr (u ''drop''),
           apiset = u ''server'', luaName = JStr (u ''Drop''), exMap = [],
           searchText = u ''drop 0x2 cfx'' \<rparr>]"
proof -
  let ?P = ascii_platform
  let ?q = "[0xA0, 0x20] @ u ''PeD'' @ [0xFEFF, 0x09]"
  let ?e1 = "\<lparr> props = [], ns = JStr (u ''PED''), hash = JStr (u ''0x1''), name = JStr (u ''get_ped''),
            apiset = u ''client'', luaName = JStr (u ''GetPed''), exMap = [],
            searchText = u ''get_ped getped 0x1 ped'' \<rparr>"
  let ?e2 = "\<lparr> props = [], ns = JStr (u ''CFX''), hash = JStr (u ''0x2''), name = JStr (u ''drop''),
            apiset = u ''server'', luaName = JStr (u ''Drop''), exMap = [],
            searchText = u ''drop 0x2 cfx'' \<rparr>"
  have t: "trim ?q = u ''PeD''" by (simp add: trim_def is_space_def)
  have m1: "matches_spec ?P ?q (u ''all'') (u ''all'') ?e1"
    unfolding matches_spec_trim t by code_simp
  have m2: "\<not> matches_spec ?P ?q (u ''all'') (u ''all'') ?e2"
    unfolding matches_spec_trim t by code_simp
  from filtered_is_filter_of_all_three[of ?P ?q "u ''all''" "u ''all''" "[?e1, ?e2]"]
  have "filtered ?P ?q (u ''all'') (u ''all'') [?e1, ?e2]
        = filter (matches_spec ?P ?q (u ''all'') (u ''all'')) [?e1, ?e2]"
    by blast
  with m1 m2 have r1: "filtered ?P ?q (u ''all'') (u ''all'') [?e1, ?e2] = [?e1]"
    by simp
  have b: "ascii_case ?P \<and> list_all is_space (u ''  '')"
    by (simp add: ascii_case_ascii_platform is_space_def)
  from filtered_is_filter_of_all_three[of ?P "u ''  ''" "u ''server''" "u ''all''" "[?e1, ?e2]"] b
  have "filtered ?P (u ''  '') (u ''server'') (u ''all'') [?e1, ?e2] =
          filter (\<lambda>n. (u ''server'' = u ''all'' \<or> apiset n = u ''server'')
                     \<and> (u ''all'' = u ''all'' \<or> ns n = JStr (u ''all''))) [?e1, ?e2]"
    by blast
  then have r2: "filtered ?P (u ''  '') (u ''server'') (u ''all'') [?e1, ?e2] = [?e2]"
    by simp
  from t r1 r2 show ?thesis by blast
qed



section \<open>Properties of the distinct-namespace derivation\<close>

lemma set_insert_by: "set (insert_by lc x xs) = insert x (set xs)"
  by (induction xs) auto

lemma distinct_insert_by: "distinct (insert_by lc x xs) \<longleftrightarrow> x \<notin> set xs \<and> distinct xs"
  by (induction xs) (auto simp: set_insert_by)

lemma sorted_insert_by:
  assumes "consistent lc" and "sorted_wrt (\<lambda>a b. lc a b \<le> 0) xs"
  shows "sorted_wrt (\<lambda>a b. lc a b \<le> 0) (insert_by lc x xs)"
  using assms(2)
proof (induction xs)
  case Nil
  show ?case by simp
next
  case (Cons y ys)
  from assms(1) have tot: "\<And>a b. lc a b \<le> 0 \<or> lc b a \<le> 0"
    and tr: "\<And>a b c. lc a b \<le> 0 \<Longrightarrow> lc b c \<le> 0 \<Longrightarrow> lc a c \<le> 0"
    unfolding consistent_def by blast+
  show ?case
  proof (cases "lc x y \<le> 0")
    case True
    with Cons.prems tr show ?thesis by auto
  next
    case False
    with tot[of x y] have "lc y x \<le> 0" by simp
    with False Cons show ?thesis by (auto simp: set_insert_by)
  qed
qed

lemma set_sort_by: "set (sort_by lc xs) = set xs"
  by (induction xs) (auto simp: set_insert_by)

lemma distinct_sort_by: "distinct (sort_by lc xs) \<longleftrightarrow> distinct xs"
  by (induction xs) (auto simp: distinct_insert_by set_sort_by)

lemma sorted_sort_by: "consistent lc \<Longrightarrow> sorted_wrt (\<lambda>a b. lc a b \<le> 0) (sort_by lc xs)"
  by (induction xs) (auto simp: sorted_insert_by)

lemma set_unique_into: "set (unique_into seen xs) = set seen \<union> set xs"
  by (induction xs arbitrary: seen) auto

lemma distinct_unique_into: "distinct seen \<Longrightarrow> distinct (unique_into seen xs)"
  by (induction xs arbitrary: seen) auto

lemma set_unique: "set (unique xs) = set xs"
  by (simp add: unique_def set_unique_into)

lemma distinct_unique: "distinct (unique xs)"
  by (simp add: unique_def distinct_unique_into)

lemma truthy_string: "truthy v \<Longrightarrow> is_string v \<Longrightarrow> v = JStr (str_of v) \<and> str_of v \<noteq> []"
  by (cases v) auto

lemma namespace_strings:
  assumes "list_all (\<lambda>v. \<not> truthy v \<or> is_string v) (map ns items)"
  shows "set (map str_of (filter truthy (map ns items))) = {s. s \<noteq> [] \<and> JStr s \<in> ns ` set items}"
proof (intro set_eqI iffI)
  fix s assume "s \<in> set (map str_of (filter truthy (map ns items)))"
  then obtain e where e: "e \<in> set items" "truthy (ns e)" "s = str_of (ns e)" by auto
  with assms have "is_string (ns e)" by (auto simp: list_all_iff)
  with e truthy_string[of "ns e"] show "s \<in> {s. s \<noteq> [] \<and> JStr s \<in> ns ` set items}"
    by (auto simp: image_iff intro: bexI[of _ e])
next
  fix s assume "s \<in> {s. s \<noteq> [] \<and> JStr s \<in> ns ` set items}"
  then obtain e where "e \<in> set items" "ns e = JStr s" "s \<noteq> []" by auto
  then show "s \<in> set (map str_of (filter truthy (map ns items)))"
    by (force simp: image_iff)
qed

lemma consistent_code_unit_compare: "consistent code_unit_compare"
  by (auto simp: consistent_def code_unit_compare_def)

text \<open>
  Claim C6. For every flattened collection whose namespace values are strings, the
  distinct-namespace derivation returns the non-empty namespace values of the whole
  collection, each once, sorted by the collation \<open>localeCompare\<close> (any consistent
  comparison), also when the collection repeats namespace values or has empty ones.
\<close>

theorem namespaces_sorted_distinct:
  assumes "consistent lc"
    and "list_all (\<lambda>v. \<not> truthy v \<or> is_string v) (map ns items)"
  shows "\<exists>r. namespaces lc items = Some r \<and> distinct r
            \<and> sorted_wrt (\<lambda>a b. lc a b \<le> 0) r
            \<and> set r = {s. s \<noteq> [] \<and> JStr s \<in> ns ` set items}"
proof -
  from assms(2) have "list_all is_string (filter truthy (map ns items))"
    by (auto simp: list_all_iff)
  then have "namespaces lc items = Some (sort_by lc (unique (map str_of (filter truthy (map ns items)))))"
    by (simp add: namespaces_def)
  with assms show ?thesis
    by (simp add: distinct_sort_by distinct_unique sorted_sort_by set_sort_by set_unique
          namespace_strings del: set_map)
qed

theorem namespaces_sorted_distinct_witness:
  "namespaces code_unit_compare
     [\<lparr> props = [], ns = JStr (u ''PED''), hash = JStr (u ''0x1''), name = JStr [],
         apiset = u ''client'', luaName = JStr [], exMap = [], searchText = [] \<rparr>,
      \<lparr> props = [], ns = JStr [], hash = JStr (u ''0x2''), name = JStr [],
         apiset = u ''client'', luaName = JStr [], exMap = [], searchText = [] \<rparr>,
      \<lparr> props = [], ns = JStr (u ''CFX''), hash = JStr (u ''0x3''), name = JStr [],
         apiset = u ''client'', luaName = JStr [], exMap = [], searchText = [] \<rparr>,
      \<lparr> props = [], ns = JStr (u ''PED''), hash = JStr (u ''0x4''), name = JStr [],
         apiset = u ''client'', luaName = JStr [], exMap = [], searchText = [] \<rparr>]
     = Some [u ''CFX'', u ''PED'']
   \<and> distinct [u ''CFX'', u ''PED'']
   \<and> sorted_wrt (\<lambda>a b. code_unit_compare a b \<le> 0) [u ''CFX'', u ''PED'']"
proof -
  let ?items =
    "[\<lparr> props = [], ns = JStr (u ''PED''), hash = JStr (u ''0x1''), name = JStr [],
         apiset = u ''client'', luaName = JStr [], exMap = [], searchText = [] \<rparr>,
      \<lparr> props = [], ns = JStr [], hash = JStr (u ''0x2''), name = JStr [],
         apiset = u ''client'', luaName = JStr [], exMap = [], searchText = [] \<rparr>,
      \<lparr> props = [], ns = JStr (u ''CFX''), hash = JStr (u ''0x3''), name = JStr [],
         apiset = u ''client'', luaName = JStr [], exMap = [], searchText = [] \<rparr>,
      \<lparr> props = [], ns = JStr (u ''PED''), hash = JStr (u ''0x4''), name = JStr [],
         apiset = u ''client'', luaName = JStr [], exMap = [], searchText = [] \<rparr>]"
  have v: "namespaces code_unit_compare ?items = Some [u ''CFX'', u ''PED'']"
    by code_simp
  have s: "list_all (\<lambda>v. \<not> truthy v \<or> is_string v) (map ns ?items)"
    by simp
  from namespaces_sorted_distinct[OF consistent_code_unit_compare s] v
  have "distinct [u ''CFX'', u ''PED'']
        \<and> sorted_wrt (\<lambda>a b. code_unit_compare a b \<le> 0) [u ''CFX'', u ''PED'']"
    by auto
  with v show ?thesis by blast
qed

section \<open>Properties of the Deep-Link Codec\<close>

lemma hash_token_starts: "hash_token t \<Longrightarrow> starts_0x t"
  by (cases t rule: hash_token.cases) auto

lemma starts_0x_Cons: "starts_0x t \<Longrightarrow> \<exists>r. t = cu CHR ''0'' # r"
  by (cases t rule: starts_0x.cases) auto

lemma match_fragment_sound: "match_fragment f = Some t \<Longrightarrow> fragment_form f t"
  by (cases f; cases "tl f") (auto simp: fragment_form_def split: if_splits)

lemma match_fragment_complete:
  assumes "fragment_form f t"
  shows "match_fragment f = Some t"
proof -
  from assms have tok: "hash_token t" by (simp add: fragment_form_def)
  then obtain r where t: "t = cu CHR ''0'' # r"
    using hash_token_starts starts_0x_Cons by blast
  from assms consider "f = cu CHR ''#'' # t" | "f = cu CHR ''#'' # cu CHR ''_'' # t"
    by (auto simp: fragment_form_def)
  then show ?thesis
  proof cases
    case 1
    with tok t show ?thesis by simp
  next
    case 2
    with tok show ?thesis by simp
  qed
qed

lemma match_fragment_Some: "match_fragment f = Some t \<longleftrightarrow> fragment_form f t"
  using match_fragment_sound match_fragment_complete by blast

lemma match_fragment_None: "match_fragment f = None \<longleftrightarrow> (\<forall>t. \<not> fragment_form f t)"
  using match_fragment_Some[of f] by (cases "match_fragment f") auto

lemma fragment_token_nonempty: "fragment_form f t \<Longrightarrow> t \<noteq> []"
  by (auto simp: fragment_form_def)

lemma hash_prefix_strip: "hash_prefix k \<Longrightarrow> starts_0x (strip_underscore k)"
  by (cases k) (auto split: if_splits)

lemma first_hash_key_append:
  "\<forall>kv \<in> set pre. \<not> hash_prefix (fst kv) \<Longrightarrow> first_hash_key (pre @ rest) = first_hash_key rest"
  by (induction pre) auto

lemma first_hash_key_None: "first_hash_key kvs = None \<longleftrightarrow> (\<forall>kv \<in> set kvs. \<not> hash_prefix (fst kv))"
  by (induction kvs) auto

lemma first_hash_key_starts: "first_hash_key kvs = Some k \<Longrightarrow> starts_0x k"
  by (induction kvs) (auto split: if_splits dest: hash_prefix_strip)

lemma sp_get_first:
  "k \<notin> fst ` set pre \<Longrightarrow> sp_get k (pre @ (k, h) # post) = Some h"
  by (induction pre) auto

lemma sp_get_Some:
  "sp_get k kvs = Some h \<Longrightarrow> \<exists>pre post. kvs = pre @ (k, h) # post \<and> k \<notin> fst ` set pre"
proof (induction kvs)
  case Nil
  then show ?case by simp
next
  case (Cons kv kvs)
  show ?case
  proof (cases "fst kv = k")
    case True
    with Cons.prems have "kv # kvs = [] @ (k, h) # kvs" by (cases kv) auto
    then show ?thesis by (metis empty_iff image_empty list.set(1))
  next
    case False
    with Cons obtain pre post where "kvs = pre @ (k, h) # post" "k \<notin> fst ` set pre" by auto
    with False have "kv # kvs = (kv # pre) @ (k, h) # post \<and> k \<notin> fst ` set (kv # pre)" by auto
    then show ?thesis by blast
  qed
qed

lemma from_hash_param_starts: "from_hash_param kvs = Some h \<Longrightarrow> starts_0x h"
  by (auto simp: from_hash_param_def split: option.splits if_splits)

lemma starts_0x_nonempty: "starts_0x h \<Longrightarrow> h \<noteq> []"
  by (cases h) auto

text \<open>
  Claim C3, as stated, fails: in an address with no fragment and the single query parameter
  \<open>_0xZZ\<close>, no parameter name matches the optional-underscore-plus-hash-style pattern
  (\<open>ZZ\<close> are not hex digits) and no parameter is named \<open>hash\<close>, so the claim gives
  null; the code tests the parameter name for the prefix only and returns \<open>0xZZ\<close>.
\<close>

theorem parseDeepLink_0xZZ_parameter:
  "\<not> hash_style (u ''_0xZZ'')
   \<and> parseHashFragment \<lparr>location_hash = [], searchParams = [(u ''_0xZZ'', [])]\<rparr> = None
   \<and> parseDeepLink \<lparr>location_hash = [], searchParams = [(u ''_0xZZ'', [])]\<rparr> = Some (u ''0xZZ'')"
  by code_simp

text \<open>
  Claim C3, amended. Deep-link decoding follows this precedence, first match wins:
  (1) a fragment (trimmed) of the form \<open>#\<close>, optional \<open>_\<close>, then a hash-style token
  (\<open>0x\<close> and at least one hex digit, nothing after them) yields that token without the
  leading underscore; (2) otherwise the first query parameter whose name begins with an
  optional underscore and \<open>0x\<close> (in either letter case; hex digits are not required)
  yields the name with a leading underscore stripped; (3) otherwise the first query
  parameter named \<open>hash\<close>, when its value starts with \<open>0x\<close> (in either letter case),
  yields that value; (4) otherwise the result is null.
\<close>

theorem parseDeepLink_precedence:
  "(fragment_form (trim (location_hash a)) t \<longrightarrow> parseDeepLink a = Some t)
   \<and> ((\<forall>t. \<not> fragment_form (trim (location_hash a)) t)
        \<and> searchParams a = pre @ (k, v) # post
        \<and> (\<forall>kv \<in> set pre. \<not> hash_prefix (fst kv)) \<and> hash_prefix k
        \<longrightarrow> parseDeepLink a = Some (strip_underscore k))
   \<and> ((\<forall>t. \<not> fragment_form (trim (location_hash a)) t)
        \<and> (\<forall>kv \<in> set (searchParams a). \<not> hash_prefix (fst kv))
        \<and> searchParams a = pre @ (u ''hash'', h) # post \<and> u ''hash'' \<notin> fst ` set pre
        \<and> starts_0x h
        \<longrightarrow> parseDeepLink a = Some h)
   \<and> ((\<forall>t. \<not> fragment_form (trim (location_hash a)) t)
        \<and> (\<forall>kv \<in> set (searchParams a). \<not> hash_prefix (fst kv))
        \<and> (\<forall>pre h post. searchParams a = pre @ (u ''hash'', h) # post \<and> u ''hash'' \<notin> fst ` set pre
              \<longrightarrow> \<not> starts_0x h)
        \<longrightarrow> parseDeepLink a = None)"
proof (intro conjI impI)
  assume "fragment_form (trim (location_hash a)) t"
  then show "parseDeepLink a = Some t"
    by (simp add: parseDeepLink_def parseHashFragment_def fragment_token_nonempty
          flip: match_fragment_Some)
next
  assume h: "(\<forall>t. \<not> fragment_form (trim (location_hash a)) t)
        \<and> searchParams a = pre @ (k, v) # post
        \<and> (\<forall>kv \<in> set pre. \<not> hash_prefix (fst kv)) \<and> hash_prefix k"
  then have "parseHashFragment a = None"
    by (simp add: parseHashFragment_def match_fragment_None)
  moreover from h have "first_hash_key (searchParams a) = Some (strip_underscore k)"
    by (simp add: first_hash_key_append)
  ultimately show "parseDeepLink a = Some (strip_underscore k)"
    by (simp add: parseDeepLink_def)
next
  assume h: "(\<forall>t. \<not> fragment_form (trim (location_hash a)) t)
        \<and> (\<forall>kv \<in> set (searchParams a). \<not> hash_prefix (fst kv))
        \<and> searchParams a = pre @ (u ''hash'', h) # post \<and> u ''hash'' \<notin> fst ` set pre
        \<and> starts_0x h"
  then have "parseHashFragment a = None"
    by (simp add: parseHashFragment_def match_fragment_None)
  moreover from h have "\<forall>kv \<in> set (searchParams a). \<not> hash_prefix (fst kv)" by blast
  then have "first_hash_key (searchParams a) = None"
    by (simp only: first_hash_key_None)
  moreover from h have "sp_get (u ''hash'') (searchParams a) = Some h"
    by (simp add: sp_get_first)
  ultimately show "parseDeepLink a = Some h"
    using h by (simp add: parseDeepLink_def from_hash_param_def starts_0x_nonempty)
next
  assume h: "(\<forall>t. \<not> fragment_form (trim (location_hash a)) t)
        \<and> (\<forall>kv \<in> set (searchParams a). \<not> hash_prefix (fst kv))
        \<and> (\<forall>pre h post. searchParams a = pre @ (u ''hash'', h) # post \<and> u ''hash'' \<notin> fst ` set pre
              \<longrightarrow> \<not> starts_0x h)"
  then have "parseHashFragment a = None"
    by (simp add: parseHashFragment_def match_fragment_None)
  moreover from h have "\<forall>kv \<in> set (searchParams a). \<not> hash_prefix (fst kv)" by blast
  then have "first_hash_key (searchParams a) = None"
    by (simp only: first_hash_key_None)
  moreover have "from_hash_param (searchParams a) = None"
  proof (cases "sp_get (u ''hash'') (searchParams a)")
    case None
    then show ?thesis by (simp add: from_hash_param_def)
  next
    case (Some h')
    from sp_get_Some[OF this] h have "\<not> starts_0x h'" by blast
    with Some show ?thesis by (simp add: from_hash_param_def)
  qed
  ultimately show "parseDeepLink a = None"
    by (simp add: parseDeepLink_def)
qed

theorem parseDeepLink_precedence_witness:
  "parseDeepLink \<lparr>location_hash = u ''#_0xAb12'', searchParams = [(u ''_0xCD'', [])]\<rparr> = Some (u ''0xAb12'')
   \<and> parseDeepLink \<lparr>location_hash = u ''#top'',
          searchParams = [(u ''foo'', u ''bar''), (u ''_0xABCD'', []), (u ''0x12'', [])]\<rparr> = Some (u ''0xABCD'')
   \<and> parseDeepLink \<lparr>location_hash = [],
          searchParams = [(u ''foo'', u ''0x1''), (u ''hash'', u ''0X9f''), (u ''hash'', u ''0x2'')]\<rparr> = Some (u ''0X9f'')
   \<and> parseDeepLink \<lparr>location_hash = u ''#_0x'',
          searchParams = [(u ''hash'', u ''abc''), (u ''hash'', u ''0x2'')]\<rparr> = None"
proof -
  let ?a1 = "\<lparr>location_hash = u ''#_0xAb12'', searchParams = [(u ''_0xCD'', [])]\<rparr>"
  let ?a2 = "\<lparr>location_hash = u ''#top'',
          searchParams = [(u ''foo'', u ''bar''), (u ''_0xABCD'', []), (u ''0x12'', [])]\<rparr>"
  let ?a3 = "\<lparr>location_hash = [],
          searchParams = [(u ''foo'', u ''0x1''), (u ''hash'', u ''0X9f''), (u ''hash'', u ''0x2'')]\<rparr>"
  let ?a4 = "\<lparr>location_hash = u ''#_0x'',
          searchParams = [(u ''hash'', u ''abc''), (u ''hash'', u ''0x2'')]\<rparr>"
  have f1: "fragment_form (trim (location_hash ?a1)) (u ''0xAb12'')"
    unfolding match_fragment_Some[symmetric] by code_simp
  have n2: "\<forall>t. \<not> fragment_form (trim (location_hash ?a2)) t"
    unfolding match_fragment_None[symmetric] by code_simp
  have n3: "\<forall>t. \<not> fragment_form (trim (location_hash ?a3)) t"
    unfolding match_fragment_None[symmetric] by code_simp
  have n4: "\<forall>t. \<not> fragment_form (trim (location_hash ?a4)) t"
    unfolding match_fragment_None[symmetric] by code_simp
  have r1: "parseDeepLink ?a1 = Some (u ''0xAb12'')"
    using parseDeepLink_precedence[of ?a1 "u ''0xAb12''"] f1 by blast
  have "searchParams ?a2 = [(u ''foo'', u ''bar'')] @ (u ''_0xABCD'', []) # [(u ''0x12'', [])]
        \<and> (\<forall>kv \<in> set [(u ''foo'', u ''bar'')]. \<not> hash_prefix (fst kv)) \<and> hash_prefix (u ''_0xABCD'')"
    by simp
  with n2 parseDeepLink_precedence[of ?a2 _ "[(u ''foo'', u ''bar'')]" "u ''_0xABCD''" "[]" "[(u ''0x12'', [])]"]
  have "parseDeepLink ?a2 = Some (strip_underscore (u ''_0xABCD''))" by blast
  then have r2: "parseDeepLink ?a2 = Some (u ''0xABCD'')" by simp
  have "(\<forall>kv \<in> set (searchParams ?a3). \<not> hash_prefix (fst kv))
        \<and> searchParams ?a3 = [(u ''foo'', u ''0x1'')] @ (u ''hash'', u ''0X9f'') # [(u ''hash'', u ''0x2'')]
        \<and> u ''hash'' \<notin> fst ` set [(u ''foo'', u ''0x1'')] \<and> starts_0x (u ''0X9f'')"
    by simp
  with n3 parseDeepLink_precedence[of ?a3 _ "[(u ''foo'', u ''0x1'')]" _ _ "[(u ''hash'', u ''0x2'')]" "u ''0X9f''"]
  have r3: "parseDeepLink ?a3 = Some (u ''0X9f'')" by blast
  have g: "sp_get (u ''hash'') (searchParams ?a4) = Some (u ''abc'')" by simp
  have "\<forall>pre h post. searchParams ?a4 = pre @ (u ''hash'', h) # post \<and> u ''hash'' \<notin> fst ` set pre
          \<longrightarrow> \<not> starts_0x h"
  proof (intro allI impI)
    fix pre h post
    assume "searchParams ?a4 = pre @ (u ''hash'', h) # post \<and> u ''hash'' \<notin> fst ` set pre"
    then have "sp_get (u ''hash'') (searchParams ?a4) = Some h"
      by (metis sp_get_first)
    with g have "h = u ''abc''" by simp
    then show "\<not> starts_0x h" by simp
  qed
  moreover have "\<forall>kv \<in> set (searchParams ?a4). \<not> hash_prefix (fst kv)" by simp
  ultimately have r4: "parseDeepLink ?a4 = None"
    using n4 parseDeepLink_precedence[of ?a4] by blast
  from r1 r2 r3 r4 show ?thesis by blast
qed

text \<open>
  Claim C10. For every address, deep-link decoding returns null or a key whose first two
  characters are \<open>0x\<close> (the \<open>x\<close> in either letter case) and that does not begin with
  an underscore: the fragment path extracts only the \<open>0x\<close>-prefixed token, the
  parameter-name path strips the leading underscore of a name that begins with an
  optional underscore and \<open>0x\<close>, and the \<open>hash\<close>-parameter path only accepts values
  that start with \<open>0x\<close>.
\<close>

theorem parseDeepLink_key_shape:
  "(parseHashFragment a = Some t \<longrightarrow> hash_token t)
   \<and> (first_hash_key (searchParams a) = Some k1 \<longrightarrow> starts_0x k1)
   \<and> (from_hash_param (searchParams a) = Some h \<longrightarrow> starts_0x h)
   \<and> (parseDeepLink a = Some k \<longrightarrow> starts_0x k \<and> \<not> prefix (u ''_'') k)"
proof (intro conjI impI)
  assume "parseHashFragment a = Some t"
  then show "hash_token t"
    by (simp add: parseHashFragment_def match_fragment_Some fragment_form_def)
next
  assume "first_hash_key (searchParams a) = Some k1"
  then show "starts_0x k1" by (rule first_hash_key_starts)
next
  assume "from_hash_param (searchParams a) = Some h"
  then show "starts_0x h" by (rule from_hash_param_starts)
next
  assume "parseDeepLink a = Some k"
  then show s: "starts_0x k"
    by (auto simp: parseDeepLink_def parseHashFragment_def match_fragment_Some fragment_form_def
          Let_def
          split: option.splits if_splits
          dest: hash_token_starts first_hash_key_starts from_hash_param_starts)
  then show "\<not> prefix (u ''_'') k" by (auto dest: starts_0x_Cons)
qed

theorem parseDeepLink_key_shape_witness:
  "parseHashFragment \<lparr>location_hash = u ''#_0xAb12'',
          searchParams = [(u ''_0X77'', []), (u ''hash'', u ''0x5'')]\<rparr> = Some (u ''0xAb12'')
   \<and> hash_token (u ''0xAb12'')
   \<and> first_hash_key [(u ''_0X77'', []), (u ''hash'', u ''0x5'')] = Some (u ''0X77'') \<and> starts_0x (u ''0X77'')
   \<and> from_hash_param [(u ''_0X77'', []), (u ''hash'', u ''0x5'')] = Some (u ''0x5'') \<and> starts_0x (u ''0x5'')
   \<and> parseDeepLink \<lparr>location_hash = u ''#_0xAb12'',
          searchParams = [(u ''_0X77'', []), (u ''hash'', u ''0x5'')]\<rparr> = Some (u ''0xAb12'')
   \<and> starts_0x (u ''0xAb12'') \<and> \<not> prefix (u ''_'') (u ''0xAb12'')"
proof -
  let ?a = "\<lparr>location_hash = u ''#_0xAb12'',
          searchParams = [(u ''_0X77'', []), (u ''hash'', u ''0x5'')]\<rparr>"
  note T = parseDeepLink_key_shape[of ?a "u ''0xAb12''" "u ''0X77''" "u ''0x5''" "u ''0xAb12''"]
  have 1: "parseHashFragment ?a = Some (u ''0xAb12'')" by code_simp
  have 2: "first_hash_key (searchParams ?a) = Some (u ''0X77'')" by simp
  have 3: "from_hash_param (searchParams ?a) = Some (u ''0x5'')" by (simp add: from_hash_param_def)
  have 4: "parseDeepLink ?a = Some (u ''0xAb12'')" by code_simp
  from T 1 have 5: "hash_token (u ''0xAb12'')" by blast
  from T 2 have 6: "starts_0x (u ''0X77'')" by blast
  from T 3 have 7: "starts_0x (u ''0x5'')" by blast
  from T 4 have 8: "starts_0x (u ''0xAb12'') \<and> \<not> prefix (u ''_'') (u ''0xAb12'')" by blast
  from 2 3 have 9: "first_hash_key [(u ''_0X77'', []), (u ''hash'', u ''0x5'')] = Some (u ''0X77'')"
    and 10: "from_hash_param [(u ''_0X77'', []), (u ''hash'', u ''0x5'')] = Some (u ''0x5'')"
    by simp_all
  from 1 4 5 6 7 8 9 10 show ?thesis by blast
qed

lemma clear_loop_filter:
  "clear_loop ks kvs =
     filter (\<lambda>kv. \<not> (fst kv \<in> set ks \<and> (hash_prefix (fst kv) \<or> fst kv = (u ''hash'')))) kvs"
proof (induction ks arbitrary: kvs)
  case Nil
  show ?case by simp
next
  case (Cons k ks)
  show ?case
  proof (cases "hash_prefix k \<or> k = (u ''hash'')")
    case True
    then have "clear_loop (k # ks) kvs = clear_loop ks (sp_delete k kvs)" by simp
    also have "\<dots> = filter (\<lambda>kv. \<not> (fst kv \<in> set ks \<and> (hash_prefix (fst kv) \<or> fst kv = (u ''hash''))))
                       (filter (\<lambda>kv. fst kv \<noteq> k) kvs)"
      by (simp only: Cons.IH sp_delete_def)
    also have "\<dots> = filter (\<lambda>kv. \<not> (fst kv \<in> set (k # ks) \<and> (hash_prefix (fst kv) \<or> fst kv = (u ''hash'')))) kvs"
      unfolding filter_filter using True by (intro filter_cong refl) auto
    finally show ?thesis .
  next
    case False
    then have "clear_loop (k # ks) kvs = clear_loop ks kvs" by simp
    also have "\<dots> = filter (\<lambda>kv. \<not> (fst kv \<in> set ks \<and> (hash_prefix (fst kv) \<or> fst kv = (u ''hash'')))) kvs"
      by (simp only: Cons.IH)
    also have "\<dots> = filter (\<lambda>kv. \<not> (fst kv \<in> set (k # ks) \<and> (hash_prefix (fst kv) \<or> fst kv = (u ''hash'')))) kvs"
      using False by (intro filter_cong refl) auto
    finally show ?thesis .
  qed
qed

lemma clear_loop_own_keys:
  "clear_loop (map fst kvs) kvs =
     filter (\<lambda>kv. \<not> hash_prefix (fst kv) \<and> fst kv \<noteq> (u ''hash'')) kvs"
  unfolding clear_loop_filter by (rule filter_cong) auto

lemma sp_set_fresh: "k \<notin> fst ` set kvs \<Longrightarrow> sp_set k v kvs = kvs @ [(k, v)]"
  by (induction kvs) auto

lemma setDeepLink_params:
  assumes "starts_0x key"
  shows "searchParams (setDeepLink key a) =
     filter (\<lambda>kv. \<not> hash_prefix (fst kv) \<and> fst kv \<noteq> (u ''hash'')) (searchParams a)
       @ [(cu CHR ''_'' # key, [])]"
proof -
  from assms have "hash_prefix (cu CHR ''_'' # key)" by simp
  then have "cu CHR ''_'' # key \<notin> fst ` set (filter (\<lambda>kv. \<not> hash_prefix (fst kv) \<and> fst kv \<noteq> (u ''hash'')) (searchParams a))"
    by auto
  then show ?thesis
    by (simp add: setDeepLink_def clear_loop_own_keys sp_set_fresh del: hash_prefix.simps)
qed

lemma setDeepLink_fragment: "location_hash (setDeepLink key a) = location_hash a"
  by (simp add: setDeepLink_def)

lemma setDeepLink_roundtrip_without_fragment:
  assumes "parseHashFragment a = None" and "starts_0x key"
  shows "parseDeepLink (setDeepLink key a) = Some key"
proof -
  have "parseHashFragment (setDeepLink key a) = None"
    using assms(1) by (simp add: parseHashFragment_def setDeepLink_fragment)
  moreover have "first_hash_key (searchParams (setDeepLink key a)) = Some key"
    using assms(2) by (simp add: setDeepLink_params[OF assms(2)] first_hash_key_append)
  ultimately show ?thesis by (simp add: parseDeepLink_def)
qed

lemma setDeepLink_unrelated_params:
  assumes "starts_0x key"
  shows "filter (\<lambda>kv. \<not> hash_prefix (fst kv) \<and> fst kv \<noteq> (u ''hash'')) (searchParams (setDeepLink key a)) =
         filter (\<lambda>kv. \<not> hash_prefix (fst kv) \<and> fst kv \<noteq> (u ''hash'')) (searchParams a)"
  using assms by (simp add: setDeepLink_params[OF assms])

text \<open>
  Claim C4 does not hold of the code. \<open>setDeepLink\<close> clears the earlier selections that
  are query parameters and leaves the fragment of the address as it is, and decoding
  looks at the fragment first: after encoding \<open>0xABCD1234\<close> into an address whose
  fragment is \<open>#_0x1111\<close>, decoding yields \<open>0x1111\<close>. The unrelated parameter \<open>foo=bar\<close>
  is untouched. (Without a fragment selection the round trip holds, as
  \<open>setDeepLink_roundtrip_without_fragment\<close> shows.)
\<close>

theorem setDeepLink_fragment_selection_survives:
  "setDeepLink (u ''0xABCD1234'') \<lparr>location_hash = u ''#_0x1111'', searchParams = [(u ''foo'', u ''bar'')]\<rparr>
     = \<lparr>location_hash = u ''#_0x1111'', searchParams = [(u ''foo'', u ''bar''), (u ''_0xABCD1234'', [])]\<rparr>
   \<and> parseDeepLink (setDeepLink (u ''0xABCD1234'')
         \<lparr>location_hash = u ''#_0x1111'', searchParams = [(u ''foo'', u ''bar'')]\<rparr>) = Some (u ''0x1111'')"
  by code_simp

end
